theory Spec2Isabelle
  imports Complex_Main "HOL-Library.Multiset"
begin

section \<open>The carousel of mvs-carousel.js\<close>

text \<open>
  A shallow embedding of \<^verbatim>\<open>src/mvs-carousel.js\<close>: the geometry computed by
  \<^verbatim>\<open>calculate\<close>, the motion controller \<^verbatim>\<open>move\<close> with its deferred
  continuation and its transition-finished handler, the touch-move handler of
  \<^verbatim>\<open>onTouchStart\<close>, and the \<^verbatim>\<open>Carousel.Nav\<close> view.

  JavaScript numbers are modelled as exact rationals: pixel sizes, offsets and the
  resistance quotient are \<open>rat\<close>; slide indices, slide counts and directions are \<open>int\<close>.
  The code computes with doubles, so a result that no double holds exactly (a percentage such
  as 29% of the stage, a quotient by 1.25) differs from the model's by the rounding, and a
  slide count taken from such a quotient can differ by one; on integer pixel values and their
  halves the two agree.
  What the DOM measures (the stage width, the scroll width, a child's box) is an input of
  the model. Class names and data attributes that no operation reads back are left out,
  except the \<^verbatim>\<open>-transitioning\<close> class and \<^verbatim>\<open>data-position\<close>.
\<close>

subsection \<open>Options\<close>

text \<open>\<^verbatim>\<open>options['slide-size']\<close>: \<^verbatim>\<open>null\<close>, a number of pixels, or a percentage
  string, of which \<^verbatim>\<open>parseInt\<close> keeps the integer in front of the percent sign.\<close>

datatype size_option = Auto | Pixels rat | Percent int

datatype alignment = AlignLeft | AlignCenter | AlignRight

datatype ends_alignment = Sticky | Aligned

datatype mode = Multiple | Single | SingleFlex

record options =
  loop :: bool
  opt_nav :: bool
  slide_size :: size_option
  slide_alignment :: alignment
  slide_ends_alignment :: ends_alignment
  slide_mode :: mode
  transitionend :: bool \<comment> \<open>whether \<^verbatim>\<open>Modernizr._transitionend\<close> is there\<close>

text \<open>\<^verbatim>\<open>options['slide-mode'].contains('single')\<close>\<close>

definition contains_single :: "mode \<Rightarrow> bool" where
  "contains_single m = (m = Single \<or> m = SingleFlex)"

subsection \<open>Carousel.Nav\<close>

text \<open>The nav element's children: one button per slide, each with or without the
  \<^verbatim>\<open>-selected\<close> class.\<close>

record nav_view =
  buttons :: "bool list"

text \<open>\<^verbatim>\<open>setSelected(index)\<close>: an absent index is \<^verbatim>\<open>undefined\<close>, and
  \<^verbatim>\<open>index || 0\<close> reads it as 0; \<^verbatim>\<open>children[i]\<close> is there for \<open>0 \<le> i < length\<close>
  only.\<close>

definition setSelected :: "int option \<Rightarrow> nav_view \<Rightarrow> nav_view" where
  "setSelected index n =
     (let children = map (\<lambda>_. False) (buttons n);
          i = (case index of None \<Rightarrow> 0 | Some j \<Rightarrow> j)
      in if 0 \<le> i \<and> nat i < length children
         then n\<lparr>buttons := children[nat i := True]\<rparr>
         else n\<lparr>buttons := children\<rparr>)"

text \<open>The loop \<^verbatim>\<open>for(i = 0; i < numOfSlides || 0; i++)\<close> of \<^verbatim>\<open>update\<close>, appending one
  fresh button to the fragment each round.\<close>

function update_loop :: "int \<Rightarrow> int \<Rightarrow> bool list \<Rightarrow> bool list" where
  "update_loop i numOfSlides frag =
     (if i < numOfSlides then update_loop (i + 1) numOfSlides (frag @ [False]) else frag)"
  by pat_completeness auto
termination
  by (relation "measure (\<lambda>(i, n, frag). nat (n - i))") auto

declare update_loop.simps [simp del]

text \<open>\<^verbatim>\<open>update(numOfSlides)\<close>; with \<^verbatim>\<open>undefined\<close> the loop condition is false at
  once.\<close>

definition update :: "int option \<Rightarrow> nav_view \<Rightarrow> nav_view" where
  "update numOfSlides n =
     setSelected (Some 0)
       (n\<lparr>buttons := (case numOfSlides of None \<Rightarrow> [] | Some k \<Rightarrow> update_loop 0 k [])\<rparr>)"

text \<open>\<^verbatim>\<open>new Carousel.Nav(numOfSlides)\<close>\<close>

definition new_nav :: "int option \<Rightarrow> nav_view" where
  "new_nav numOfSlides = setSelected None (update numOfSlides \<lparr>buttons = []\<rparr>)"

datatype nav_call = Update "int option" | SetSelected "int option"

fun nav_step :: "nav_view \<Rightarrow> nav_call \<Rightarrow> nav_view" where
  "nav_step n (Update k) = update k n"
| "nav_step n (SetSelected i) = setSelected i n"

text \<open>The indices of the buttons that carry the selected marker.\<close>

definition selected :: "nav_view \<Rightarrow> nat list" where
  "selected n = filter (\<lambda>i. buttons n ! i) [0..<length (buttons n)]"

subsection \<open>The carousel's state\<close>

text \<open>A child of the list element, by what the code reads of it: \<^verbatim>\<open>offsetLeft\<close> and
  its width (\<^verbatim>\<open>offsetWidth\<close>, which is also \<^verbatim>\<open>getSize().x\<close>).\<close>

record child =
  offsetLeft :: rat
  offsetWidth :: rat

text \<open>The third argument of \<^verbatim>\<open>move\<close>: nothing, a function of the caller (known by a
  number and logged when it is called), or the closure \<^verbatim>\<open>onTransitionEnd\<close> of an
  enclosing \<^verbatim>\<open>move\<close>, which holds that call's slide index and callback.\<close>

datatype callback = NoCallback | User nat | OnTransitionEnd int callback

record move_opts =
  event :: "string option"
  transition :: "string option"

text \<open>The function that \<^verbatim>\<open>move\<close> delays by 10 ms, by the variables it closes over.\<close>

record deferred =
  d_target :: rat
  d_thisSlide :: int
  d_direction :: int
  d_opts :: move_opts
  d_callback :: callback

datatype position = Start | Middle | End

record carousel =
  options :: options
  children :: "child list"
  nav :: "nav_view option"
  current_slide :: int
  stage_size :: rat
  total_size :: rat
  slide_offset_left :: rat
  slide_offset_right :: rat
  slides :: int
  moving :: bool \<comment> \<open>\<^verbatim>\<open>_moving\<close>\<close>
  currentOffset :: "rat option" \<comment> \<open>\<^verbatim>\<open>this.currentOffset\<close>, undefined at first\<close>
  translateX :: "rat option" \<comment> \<open>the transform style of the children\<close>
  transitioning :: bool
  data_position :: position
  timers :: "deferred list" \<comment> \<open>delayed functions not yet run\<close>
  listeners :: "callback list" \<comment> \<open>handlers waiting for the transition-finished signal\<close>
  moved :: "int list" \<comment> \<open>the \<^verbatim>\<open>moved\<close> events fired, by their \<^verbatim>\<open>to\<close>\<close>
  called :: "nat list" \<comment> \<open>the caller's callbacks invoked, in order\<close>

text \<open>\<^verbatim>\<open>getCurrentOffset(raw)\<close>: the raw value is read from the first child's style; no
  first child, no transform yet, or a transform of 0 fall through \<^verbatim>\<open>||\<close> to
  \<^verbatim>\<open>this.currentOffset || 0\<close>.\<close>

definition getCurrentOffset :: "bool \<Rightarrow> carousel \<Rightarrow> rat" where
  "getCurrentOffset raw s =
     (let recorded = (case currentOffset s of None \<Rightarrow> 0 | Some c \<Rightarrow> c)
      in if raw then
           (case (if children s = [] then None else translateX s) of
              None \<Rightarrow> recorded
            | Some v \<Rightarrow> if v \<noteq> 0 then v else recorded)
         else recorded)"

text \<open>\<^verbatim>\<open>_move(to, setAsOffset)\<close>: the style is set on every child, so on none when there
  is no child.\<close>

definition move_raw :: "rat \<Rightarrow> bool \<Rightarrow> carousel \<Rightarrow> carousel" where
  "move_raw to setAsOffset s =
     (let s1 = (if children s = [] then s else s\<lparr>translateX := Some to\<rparr>)
      in if setAsOffset then s1\<lparr>currentOffset := Some to\<rparr> else s1)"

subsection \<open>Geometry: calculate\<close>

text \<open>\<^verbatim>\<open>getTotalSize\<close> moves to 0, measures, and moves back to the raw offset; the
  measured scroll width is an input.\<close>

definition getTotalSize :: "carousel \<Rightarrow> carousel" where
  "getTotalSize s = (let current = getCurrentOffset True s in move_raw current True (move_raw 0 True s))"

text \<open>The \<^verbatim>\<open>do ... while\<close> of \<^verbatim>\<open>calculate\<close>. The last argument is the children from
  \<^verbatim>\<open>index\<close> on, so \<^verbatim>\<open>children[index]\<close> is there when it is not empty; the result is
  \<^verbatim>\<open>slideSize\<close> and the children left at the exit.\<close>

fun pack :: "rat \<Rightarrow> rat \<Rightarrow> rat \<Rightarrow> child list \<Rightarrow> rat \<times> child list" where
  "pack stage slideSize childSize [] = (slideSize, [])"
| "pack stage slideSize childSize (c # rest) =
     (let slideSize' = slideSize + childSize;
          childSize' = offsetWidth c
      in if slideSize' + childSize' \<le> stage \<and> rest \<noteq> []
         then pack stage slideSize' childSize' rest
         else (slideSize', rest))"

text \<open>The slide size before percentages are resolved: a number, or a percentage string.\<close>

datatype raw_size = Num rat | Pct int

definition raw_slide_size :: "rat \<Rightarrow> rat \<Rightarrow> carousel \<Rightarrow> raw_size" where
  "raw_slide_size stage totalSize s =
     (case slide_size (options s) of
        Auto \<Rightarrow>
          (case children s of
             [] \<Rightarrow> Pct 100
           | c # cs \<Rightarrow>
               if slide_mode (options s) = Single then Num (offsetWidth c)
               else (case pack stage 0 0 (c # cs) of
                       (slideSize, rest) \<Rightarrow>
                         if rest = [] \<and> slideSize < totalSize then Pct 100 else Num slideSize))
      | Pixels p \<Rightarrow> Num (if p \<noteq> 0 then p else stage)
      | Percent p \<Rightarrow> Pct p)"

definition resolve_size :: "rat \<Rightarrow> raw_size \<Rightarrow> rat" where
  "resolve_size stage r = (case r of Num v \<Rightarrow> v | Pct p \<Rightarrow> stage * (of_int p / 100))"

text \<open>\<^verbatim>\<open>calculate\<close>, given the measured stage width and scroll width. A quotient by a
  slide size of 0 is never used: the count is then forced to 1.\<close>

definition calculate :: "rat \<Rightarrow> rat \<Rightarrow> carousel \<Rightarrow> carousel" where
  "calculate stage totalSize s0 =
     (let s = getTotalSize s0;
          slideSize = resolve_size stage (raw_slide_size stage totalSize s);
          half = (stage - slideSize) / 2;
          slideOffsetLeft =
            (case slide_alignment (options s) of
               AlignLeft \<Rightarrow> 0 | AlignRight \<Rightarrow> half * 2 | AlignCenter \<Rightarrow> half);
          slideOffsetRight =
            (case slide_alignment (options s) of
               AlignLeft \<Rightarrow> half * 2 | AlignRight \<Rightarrow> 0 | AlignCenter \<Rightarrow> half);
          counted =
            (if slide_size (options s) = Auto \<and> contains_single (slide_mode (options s))
             then int (length (children s))
             else \<lceil>totalSize / slideSize\<rceil>);
          n = (if slideSize = 0 \<or> counted = 0 then 1 else counted)
      in s\<lparr>stage_size := stage,
           total_size := totalSize,
           slide_offset_left := slideOffsetLeft,
           slide_offset_right := slideOffsetRight,
           slides := n,
           nav := map_option (update (Some n)) (nav s)\<rparr>)"

subsection \<open>Motion: move\<close>

text \<open>Calling a callback. The caller's function is logged. \<^verbatim>\<open>onTransitionEnd\<close> removes
  itself from the listeners, fires \<^verbatim>\<open>moved\<close>, clears \<^verbatim>\<open>_moving\<close> and calls the
  callback of its \<^verbatim>\<open>move\<close>.\<close>

fun invoke :: "callback \<Rightarrow> carousel \<Rightarrow> carousel" where
  "invoke NoCallback s = s"
| "invoke (User k) s = s\<lparr>called := called s @ [k]\<rparr>"
| "invoke (OnTransitionEnd thisSlide cb) s =
     invoke cb
       (s\<lparr>listeners := remove1 (OnTransitionEnd thisSlide cb) (listeners s),
          transitioning := False,
          moved := moved s @ [thisSlide],
          moving := False\<rparr>)"

text \<open>\<^verbatim>\<open>thisSlide\<close>: the current slide plus the direction, brought up to 0, then down to
  the last slide, then sent to 0 by the timer at the last slide when looping.\<close>

definition move_index :: "carousel \<Rightarrow> int \<Rightarrow> move_opts \<Rightarrow> int" where
  "move_index s direction opts =
     (let t0 = current_slide s + direction;
          t1 = (if t0 < 0 then 0 else t0);
          t2 = (if t1 > slides s - 1 then slides s - 1 else t1)
      in if loop (options s) \<and> direction = 1 \<and> event opts = Some ''timer''
            \<and> current_slide s = slides s - 1
         then 0 else t2)"

text \<open>\<^verbatim>\<open>target\<close> before the sticky clamp; \<open>None\<close> when single-flex finds no child at
  \<^verbatim>\<open>thisSlide\<close>.\<close>

definition move_target :: "carousel \<Rightarrow> int \<Rightarrow> rat option" where
  "move_target s thisSlide =
     (if slide_size (options s) = Auto \<and> slide_mode (options s) = SingleFlex then
        (if 0 \<le> thisSlide \<and> nat thisSlide < length (children s) then
           (let thisSlideChild = children s ! nat thisSlide;
                alignmentOffset = stage_size s - offsetWidth thisSlideChild
            in Some (case slide_alignment (options s) of
                       AlignRight \<Rightarrow> offsetLeft thisSlideChild - alignmentOffset
                     | AlignCenter \<Rightarrow> offsetLeft thisSlideChild - alignmentOffset / 2
                     | AlignLeft \<Rightarrow> offsetLeft thisSlideChild))
         else None)
      else Some (of_int thisSlide * stage_size s
                 - (slide_offset_left s + slide_offset_right s) * of_int thisSlide
                 - slide_offset_left s))"

definition sticky_clamp :: "carousel \<Rightarrow> rat \<Rightarrow> rat" where
  "sticky_clamp s target =
     (if slide_ends_alignment (options s) = Sticky then
        (let t1 = (if target < 0 then 0 else target)
         in if t1 > total_size s - stage_size s then total_size s - stage_size s else t1)
      else target)"

text \<open>The part of \<^verbatim>\<open>move\<close> that runs at the call: up to the delayed function, which is
  put among the timers.\<close>

definition move :: "int \<Rightarrow> move_opts \<Rightarrow> callback \<Rightarrow> carousel \<Rightarrow> carousel" where
  "move direction opts cb s =
     (if moving s then invoke cb s
      else
        (let s1 = s\<lparr>moving := True\<rparr>;
             thisSlide = move_index s1 direction opts
         in case move_target s1 thisSlide of
              None \<Rightarrow> invoke cb (s1\<lparr>moving := False\<rparr>)
            | Some t \<Rightarrow>
                (let target = sticky_clamp s1 t
                 in s1\<lparr>current_slide := thisSlide,
                       data_position :=
                         (if target = 0 then Start
                          else if target = total_size s1 - stage_size s1 then End else Middle),
                       nav := map_option (setSelected (Some thisSlide)) (nav s1),
                       timers := timers s1 @
                         [\<lparr>d_target = target, d_thisSlide = thisSlide,
                           d_direction = direction, d_opts = opts, d_callback = cb\<rparr>]\<rparr>)))"

text \<open>The delayed function of \<^verbatim>\<open>move\<close>.\<close>

definition run_deferred :: "deferred \<Rightarrow> carousel \<Rightarrow> carousel" where
  "run_deferred d s =
     (let onTransitionEnd = OnTransitionEnd (d_thisSlide d) (d_callback d)
      in if getCurrentOffset True s \<noteq> - d_target d then
           (let s1 = (if transitionend (options s)
                      then s\<lparr>listeners := listeners s @ [onTransitionEnd], transitioning := True\<rparr>
                      else s);
                s2 = move_raw (- d_target d) True s1
            in if \<not> transitionend (options s) then invoke onTransitionEnd s2 else s2)
         else if slide_ends_alignment (options s) = Sticky
                 \<and> contains_single (slide_mode (options s))
                 \<and> d_direction d \<noteq> 0 \<and> d_thisSlide d > 0 \<and> d_thisSlide d < slides s - 1
         then move (if d_direction d > 0 then 1 else - 1) (d_opts d) onTransitionEnd
                (s\<lparr>moving := False\<rparr>)
         else invoke onTransitionEnd s)"

subsection \<open>What happens to a carousel\<close>

text \<open>A call of \<^verbatim>\<open>move\<close> by a caller (with no callback, or with the caller's function
  number \<open>k\<close>), the 10 ms timer firing, and the transition-finished signal of the host,
  which calls every handler that listens for it.\<close>

datatype input = Move int move_opts "nat option" | Tick | TransitionEnd

fun step :: "carousel \<Rightarrow> input \<Rightarrow> carousel" where
  "step s (Move direction opts cb) =
     move direction opts (case cb of None \<Rightarrow> NoCallback | Some k \<Rightarrow> User k) s"
| "step s Tick = (case timers s of [] \<Rightarrow> s | d # ds \<Rightarrow> run_deferred d (s\<lparr>timers := ds\<rparr>))"
| "step s TransitionEnd = fold invoke (listeners s) s"

definition run :: "carousel \<Rightarrow> input list \<Rightarrow> carousel" where
  "run s ins = foldl step s ins"

text \<open>The carousel as \<^verbatim>\<open>initialize\<close> leaves it, before its delayed
  \<^verbatim>\<open>calculate().start().move(0)\<close>; the layout fields are not set yet, and
  \<^verbatim>\<open>calculate\<close> sets every one of them.\<close>

definition new_carousel :: "options \<Rightarrow> child list \<Rightarrow> carousel" where
  "new_carousel opts cs =
     \<lparr>options = opts, children = cs,
      nav = (if opt_nav opts then Some (new_nav None) else None),
      current_slide = 0, stage_size = 0, total_size = 0,
      slide_offset_left = 0, slide_offset_right = 0, slides = 0,
      moving = False, currentOffset = None, translateX = None,
      transitioning = False, data_position = Start,
      timers = [], listeners = [], moved = [], called = []\<rparr>"

text \<open>The carousel once attached: \<^verbatim>\<open>calculate\<close> with the measured stage width and
  scroll width.\<close>

definition attached :: "options \<Rightarrow> child list \<Rightarrow> rat \<Rightarrow> rat \<Rightarrow> carousel" where
  "attached opts cs stage totalSize = calculate stage totalSize (new_carousel opts cs)"

subsection \<open>Touch: onTouchStart and its touchmove handler\<close>

text \<open>A touch event by what the handlers read: the touch points (\<^verbatim>\<open>pageX\<close>,
  \<^verbatim>\<open>pageY\<close>) and the pinch \<^verbatim>\<open>scale\<close>, which not every browser sets.\<close>

record touch_event =
  touches :: "(rat \<times> rat) list"
  scale :: "rat option"

text \<open>The variables that the handlers of one gesture share: \<^verbatim>\<open>start\<close> with its two
  resistance anchors, \<^verbatim>\<open>delta\<close> (empty at first) and \<^verbatim>\<open>isScrolling\<close> (undefined at
  first).\<close>

record gesture =
  start_scroll :: rat
  start_x :: rat
  start_y :: rat
  resistanceTargetLeft :: "rat option"
  resistanceTargetRight :: "rat option"
  delta :: "(rat \<times> rat) option"
  isScrolling :: "bool option"

datatype js_error = TypeError


text \<open>The resistance block of \<^verbatim>\<open>onTouchMove\<close>, for the horizontal delta \<open>dx\<close>: the target
  of the drag, and the anchors as the block leaves them.\<close>

definition resistance :: "carousel \<Rightarrow> gesture \<Rightarrow> rat \<Rightarrow> gesture \<times> rat" where
  "resistance s g dx =
     (let target = start_scroll g - dx;
          sticky = (slide_ends_alignment (options s) = Sticky)
      in if target < 0 - (if sticky then 0 else slide_offset_left s) then
           (let a = (case resistanceTargetLeft g of None \<Rightarrow> \<bar>dx\<bar> | Some r \<Rightarrow> r)
            in (g\<lparr>resistanceTargetLeft := Some a\<rparr>, target + (\<bar>dx\<bar> - a) / 1.25))
         else if target > total_size s - stage_size s
                          + (if sticky then 0 else slide_offset_right s) then
           (let a = (case resistanceTargetRight g of None \<Rightarrow> \<bar>dx\<bar> | Some r \<Rightarrow> r)
            in (g\<lparr>resistanceTargetRight := Some a\<rparr>, target - (\<bar>dx\<bar> - a) / 1.25))
         else (g\<lparr>resistanceTargetLeft := None, resistanceTargetRight := None\<rparr>, target))"

text \<open>\<^verbatim>\<open>onTouchMove\<close>: more than one touch or a pinch is ignored; the first touch point
  is then read, which throws when there is none.\<close>

definition onTouchMove :: "touch_event \<Rightarrow> gesture \<times> carousel \<Rightarrow> js_error + gesture \<times> carousel" where
  "onTouchMove e gs =
     (case gs of (g, s) \<Rightarrow>
        if length (touches e) > 1 \<or> (case scale e of None \<Rightarrow> False | Some v \<Rightarrow> v \<noteq> 0 \<and> v \<noteq> 1)
        then Inr (g, s)
        else
          (case touches e of
             [] \<Rightarrow> Inl TypeError
           | (pageX, pageY) # _ \<Rightarrow>
               (let dx = pageX - start_x g;
                    dy = pageY - start_y g;
                    g1 = g\<lparr>delta := Some (dx, dy)\<rparr>
                in if \<bar>dx\<bar> > 3 \<or> \<bar>dy\<bar> > 3 then
                     (let g2 = (if isScrolling g1 = None
                                then g1\<lparr>isScrolling := Some (\<bar>dx\<bar> < \<bar>dy\<bar>)\<rparr> else g1)
                      in if isScrolling g2 = Some False then
                           (case resistance s g2 dx of
                              (g3, target) \<Rightarrow> Inr (g3, move_raw (- target) False s))
                         else Inr (g2, s))
                   else Inr (g1, s))))"

subsection \<open>Callbacks owed, and states at rest\<close>

text \<open>The caller's functions that calling a callback calls.\<close>

fun users :: "callback \<Rightarrow> nat list" where
  "users NoCallback = []"
| "users (User k) = [k]"
| "users (OnTransitionEnd thisSlide cb) = users cb"

text \<open>The \<^verbatim>\<open>moved\<close> events that calling a callback fires.\<close>

fun fires :: "callback \<Rightarrow> int list" where
  "fires NoCallback = []"
| "fires (User k) = []"
| "fires (OnTransitionEnd thisSlide cb) = thisSlide # fires cb"

text \<open>The caller's functions held by the delayed functions and the handlers that have not
  run yet.\<close>

definition owed :: "carousel \<Rightarrow> nat list" where
  "owed s = concat (map (\<lambda>d. users (d_callback d)) (timers s)) @ concat (map users (listeners s))"

text \<open>The caller's functions passed to \<^verbatim>\<open>move\<close> by a list of inputs.\<close>

fun given :: "input \<Rightarrow> nat list" where
  "given (Move direction opts (Some k)) = [k]"
| "given (Move direction opts None) = []"
| "given Tick = []"
| "given TransitionEnd = []"

definition issued :: "input list \<Rightarrow> nat list" where
  "issued ins = concat (map given ins)"

text \<open>At rest: no delayed function, no handler waiting, no move in flight.\<close>

definition at_rest :: "carousel \<Rightarrow> bool" where
  "at_rest s = (timers s = [] \<and> listeners s = [] \<and> \<not> moving s)"

text \<open>What holds of the pending work in every state that inputs lead to: at most one delayed
  function or one handler, exactly when a move is in flight; a delayed function is the one of
  the move that set the current slide.\<close>

definition pending_ok :: "carousel \<Rightarrow> bool" where
  "pending_ok s =
     (case (timers s, listeners s) of
        ([], []) \<Rightarrow> \<not> moving s
      | ([d], []) \<Rightarrow> moving s \<and> current_slide s = d_thisSlide d
      | ([], [OnTransitionEnd t cb]) \<Rightarrow> moving s \<and> transitionend (options s)
      | _ \<Rightarrow> False)"

text \<open>How many slides lie between the slide of the first delayed function and the end that
  its direction points to: a bound on how often that function can issue \<^verbatim>\<open>move\<close> again.\<close>

definition remaining :: "carousel \<Rightarrow> nat" where
  "remaining s =
     (case timers s of
        [] \<Rightarrow> 0
      | d # ds \<Rightarrow> if 0 < d_direction d then nat (slides s - d_thisSlide d)
                 else nat (d_thisSlide d))"

text \<open>A slide count of at least 1 and a current slide among the slides.\<close>

definition in_range :: "carousel \<Rightarrow> bool" where
  "in_range s = (1 \<le> slides s \<and> 0 \<le> current_slide s \<and> current_slide s \<le> slides s - 1)"

text \<open>A configured slide size is a number of pixels or a percentage that is not negative.\<close>

definition size_option_ok :: "size_option \<Rightarrow> bool" where
  "size_option_ok z = (case z of Auto \<Rightarrow> True | Pixels p \<Rightarrow> 0 \<le> p | Percent p \<Rightarrow> 0 \<le> p)"

text \<open>The targets of the delayed functions lie between 0 and the total size less the stage
  size, and the offsets recorded and rendered are their negations.\<close>

definition within_ends :: "carousel \<Rightarrow> bool" where
  "within_ends s =
     ((\<forall>d\<in>set (timers s). 0 \<le> d_target d \<and> d_target d \<le> total_size s - stage_size s)
      \<and> (case currentOffset s of None \<Rightarrow> True
          | Some c \<Rightarrow> - (total_size s - stage_size s) \<le> c \<and> c \<le> 0)
      \<and> (case translateX s of None \<Rightarrow> True
          | Some c \<Rightarrow> - (total_size s - stage_size s) \<le> c \<and> c \<le> 0))"

subsection \<open>Examples\<close>

text \<open>Four children of 100 px, side by side, in the default mode, aligned left with sticky
  ends.\<close>

definition four_options :: options where
  "four_options =
     \<lparr>loop = True, opt_nav = True, slide_size = Auto, slide_alignment = AlignLeft,
      slide_ends_alignment = Sticky, slide_mode = Multiple, transitionend = True\<rparr>"

definition four_children :: "child list" where
  "four_children =
     [\<lparr>offsetLeft = 0, offsetWidth = 100\<rparr>, \<lparr>offsetLeft = 100, offsetWidth = 100\<rparr>,
      \<lparr>offsetLeft = 200, offsetWidth = 100\<rparr>, \<lparr>offsetLeft = 300, offsetWidth = 100\<rparr>]"

text \<open>Three children of 300 px in a stage of 300 px, one child a slide, looping, sticky
  ends: three slides and a total size of 900.\<close>

definition three_options :: options where
  "three_options =
     \<lparr>loop = True, opt_nav = True, slide_size = Auto, slide_alignment = AlignCenter,
      slide_ends_alignment = Sticky, slide_mode = Single, transitionend = True\<rparr>"

definition three_children :: "child list" where
  "three_children =
     [\<lparr>offsetLeft = 0, offsetWidth = 300\<rparr>, \<lparr>offsetLeft = 300, offsetWidth = 300\<rparr>,
      \<lparr>offsetLeft = 600, offsetWidth = 300\<rparr>]"

definition no_opts :: move_opts where
  "no_opts = \<lparr>event = None, transition = None\<rparr>"

definition timer_opts :: move_opts where
  "timer_opts = \<lparr>event = Some ''timer'', transition = None\<rparr>"

text \<open>Four children of 100 px in a stage of 300 px, one child a slide, centred, sticky ends:
  the targets of slides 0 and 1 are both clamped to 0.\<close>

definition single_options :: options where
  "single_options =
     \<lparr>loop = True, opt_nav = True, slide_size = Auto, slide_alignment = AlignCenter,
      slide_ends_alignment = Sticky, slide_mode = Single, transitionend = True\<rparr>"



text \<open>The three slides, settled on the last one.\<close>

definition three_at_last :: carousel where
  "three_at_last =
     run (attached three_options three_children 300 900) [Move 2 no_opts None, Tick, TransitionEnd]"

text \<open>A gesture that starts at the computed offset 0, at the point (0, 0), and the touchmove
  event of one finger at the point (\<open>x\<close>, 0).\<close>

definition drag_start :: gesture where
  "drag_start =
     \<lparr>start_scroll = 0, start_x = 0, start_y = 0, resistanceTargetLeft = None,
      resistanceTargetRight = None, delta = None, isScrolling = None\<rparr>"

definition finger_at :: "rat \<Rightarrow> touch_event" where
  "finger_at x = \<lparr>touches = [(x, 0)], scale = None\<rparr>"

text \<open>A run of touchmove events, stopped by the first that throws, and the transform that
  it leaves on the children.\<close>

fun drag :: "touch_event list \<Rightarrow> gesture \<times> carousel \<Rightarrow> js_error + gesture \<times> carousel" where
  "drag [] gs = Inr gs"
| "drag (e # es) gs = (case onTouchMove e gs of Inl err \<Rightarrow> Inl err | Inr gs' \<Rightarrow> drag es gs')"

definition rendered :: "js_error + gesture \<times> carousel \<Rightarrow> rat option" where
  "rendered r = (case r of Inl err \<Rightarrow> None | Inr (g, s) \<Rightarrow> translateX s)"

text \<open>The boundaries that the resistance block compares the target with.\<close>

definition left_boundary :: "carousel \<Rightarrow> rat" where
  "left_boundary s =
     0 - (if slide_ends_alignment (options s) = Sticky then 0 else slide_offset_left s)"

definition right_boundary :: "carousel \<Rightarrow> rat" where
  "right_boundary s =
     total_size s - stage_size s
       + (if slide_ends_alignment (options s) = Sticky then 0 else slide_offset_right s)"

section \<open>Properties of Carousel.Nav\<close>

lemma update_loop_replicate:
  "update_loop i n frag = frag @ replicate (nat (n - i)) False"
proof (induction i n frag rule: update_loop.induct)
  case (1 i n frag)
  show ?case
  proof (cases "i < n")
    case True
    then have "nat (n - i) = Suc (nat (n - (i + 1)))" by simp
    with True 1 show ?thesis
      by (simp add: replicate_append_same update_loop.simps[of i n frag])
  next
    case False
    then show ?thesis by (simp add: update_loop.simps[of i n frag])
  qed
qed

lemma filter_eq_upt: "filter (\<lambda>i. i = j) [0..<n] = (if j < n then [j] else [])"
  by (induction n) auto

lemma filter_single_true:
  "filter (\<lambda>i. (replicate n False)[j := True] ! i) [0..<n] = (if j < n then [j] else [])"
proof -
  have eq: "((replicate n False)[j := True] ! i) = (i = j)" if "i < n" for i
    using that by (cases "i = j") (auto simp: nth_list_update)
  have "filter (\<lambda>i. (replicate n False)[j := True] ! i) [0..<n] = filter (\<lambda>i. i = j) [0..<n]"
    by (rule filter_cong) (auto simp: eq)
  then show ?thesis by (simp only: filter_eq_upt)
qed

lemma filter_none_true: "filter (\<lambda>i. replicate n False ! i) [0..<n] = []"
  by (auto simp: filter_empty_conv)

lemma map_const_replicate: "map (\<lambda>_. False) bs = replicate (length bs) False"
  by (simp add: map_replicate_const)

lemma selected_setSelected:
  "selected (setSelected index n) =
     (let i = (case index of None \<Rightarrow> 0 | Some j \<Rightarrow> j)
      in if 0 \<le> i \<and> nat i < length (buttons n) then [nat i] else [])"
  by (simp add: selected_def setSelected_def Let_def map_const_replicate
      filter_single_true filter_none_true)

lemma length_selected_setSelected: "length (selected (setSelected index n)) \<le> 1"
  by (simp add: selected_setSelected Let_def)

lemma buttons_update:
  "buttons (update (Some k) n) = (replicate (nat k) False)[0 := True]"
  by (simp add: update_def setSelected_def Let_def update_loop_replicate map_const_replicate)

lemma selected_update:
  "selected (update (Some k) n) = (if 0 < k then [0] else [])"
  by (simp add: update_def selected_setSelected Let_def update_loop_replicate)

lemma length_selected_update: "length (selected (update k n)) \<le> 1"
  unfolding update_def by (rule length_selected_setSelected)

lemma length_selected_new_nav: "length (selected (new_nav k)) \<le> 1"
  unfolding new_nav_def by (rule length_selected_setSelected)

lemma length_selected_nav_step: "length (selected (nav_step n c)) \<le> 1"
proof (cases c)
  case (Update k)
  then show ?thesis using length_selected_update [of k n] by simp
next
  case (SetSelected i)
  then show ?thesis using length_selected_setSelected [of i n] by simp
qed

lemma length_selected_calls:
  "length (selected (foldl nav_step (new_nav k) calls)) \<le> 1"
proof (cases calls rule: rev_cases)
  case Nil
  then show ?thesis using length_selected_new_nav [of k] by simp
next
  case (snoc cs c)
  then show ?thesis using length_selected_nav_step [of "foldl nav_step (new_nav k) cs" c] by simp
qed

text \<open>
  C10. After any sequence of \<^verbatim>\<open>update\<close> and \<^verbatim>\<open>setSelected\<close> calls on a new Nav, at most
  one button carries the selected marker; \<^verbatim>\<open>setSelected(i)\<close> with \<open>i\<close> below 0 or not
  below the number of buttons leaves none selected; \<^verbatim>\<open>update(m)\<close> leaves exactly button 0
  selected (no button when it builds none); and after \<^verbatim>\<open>update(5)\<close> then
  \<^verbatim>\<open>setSelected(3)\<close> the one selected button is the one of index 3.
\<close>

theorem nav_at_most_one_selected:
  "length (selected (foldl nav_step (new_nav k) calls)) \<le> 1
   \<and> ((i < 0 \<or> int (length (buttons n)) \<le> i) \<longrightarrow> selected (setSelected (Some i) n) = [])
   \<and> selected (update (Some m) n) = (if 0 < m then [0] else [])
   \<and> selected (setSelected (Some 3) (update (Some 5) n)) = [3]"
proof -
  have a: "length (selected (foldl nav_step (new_nav k) calls)) \<le> 1"
    by (rule length_selected_calls)
  have b: "(i < 0 \<or> int (length (buttons n)) \<le> i) \<longrightarrow> selected (setSelected (Some i) n) = []"
    by (auto simp: selected_setSelected)
  have c: "selected (update (Some m) n) = (if 0 < m then [0] else [])"
    by (rule selected_update)
  have d: "selected (setSelected (Some 3) (update (Some 5) n)) = [3]"
    by (simp add: selected_setSelected buttons_update)
  from a b c d show ?thesis by blast
qed

theorem nav_at_most_one_selected_witness:
  "length (selected (foldl nav_step (new_nav (Some 4))
      [SetSelected (Some 2), Update (Some 3), SetSelected (Some 7)])) \<le> 1
   \<and> int (length (buttons \<lparr>buttons = [False, True]\<rparr>)) \<le> 7
   \<and> selected (setSelected (Some 7) \<lparr>buttons = [False, True]\<rparr>) = []
   \<and> selected (update (Some 3) \<lparr>buttons = [False, True]\<rparr>) = [0]"
  using nav_at_most_one_selected [of "Some 4"
      "[SetSelected (Some 2), Update (Some 3), SetSelected (Some 7)]"
      7 "\<lparr>buttons = [False, True]\<rparr>" 3]
  by simp

section \<open>How the operations change the state\<close>

lemma move_raw_keeps [simp]:
  "options (move_raw to b s) = options s"
  "children (move_raw to b s) = children s"
  "nav (move_raw to b s) = nav s"
  "current_slide (move_raw to b s) = current_slide s"
  "stage_size (move_raw to b s) = stage_size s"
  "total_size (move_raw to b s) = total_size s"
  "slide_offset_left (move_raw to b s) = slide_offset_left s"
  "slide_offset_right (move_raw to b s) = slide_offset_right s"
  "slides (move_raw to b s) = slides s"
  "moving (move_raw to b s) = moving s"
  "transitioning (move_raw to b s) = transitioning s"
  "data_position (move_raw to b s) = data_position s"
  "timers (move_raw to b s) = timers s"
  "listeners (move_raw to b s) = listeners s"
  "moved (move_raw to b s) = moved s"
  "called (move_raw to b s) = called s"
  by (simp_all add: move_raw_def Let_def)

lemma invoke_keeps [simp]:
  "options (invoke cb s) = options s \<and> children (invoke cb s) = children s
   \<and> nav (invoke cb s) = nav s \<and> current_slide (invoke cb s) = current_slide s
   \<and> stage_size (invoke cb s) = stage_size s \<and> total_size (invoke cb s) = total_size s
   \<and> slide_offset_left (invoke cb s) = slide_offset_left s
   \<and> slide_offset_right (invoke cb s) = slide_offset_right s
   \<and> slides (invoke cb s) = slides s \<and> currentOffset (invoke cb s) = currentOffset s
   \<and> translateX (invoke cb s) = translateX s \<and> data_position (invoke cb s) = data_position s
   \<and> timers (invoke cb s) = timers s"
  by (induction cb arbitrary: s) simp_all

lemma invoke_called [simp]: "called (invoke cb s) = called s @ users cb"
  by (induction cb arbitrary: s) simp_all

lemma invoke_moved [simp]: "moved (invoke cb s) = moved s @ fires cb"
  by (induction cb arbitrary: s) simp_all

lemma invoke_moving [simp]: "moving (invoke cb s) = (moving s \<and> fires cb = [])"
  by (induction cb arbitrary: s) simp_all

lemma invoke_transitioning [simp]: "transitioning (invoke cb s) = (transitioning s \<and> fires cb = [])"
  by (induction cb arbitrary: s) simp_all

lemma invoke_listeners_empty [simp]: "listeners s = [] \<Longrightarrow> listeners (invoke cb s) = []"
  by (induction cb arbitrary: s) simp_all

lemma move_index_moving [simp]: "move_index (s\<lparr>moving := b\<rparr>) d opts = move_index s d opts"
  by (simp add: move_index_def Let_def)

lemma move_target_moving [simp]: "move_target (s\<lparr>moving := b\<rparr>) i = move_target s i"
  by (simp add: move_target_def Let_def)

lemma sticky_clamp_moving [simp]: "sticky_clamp (s\<lparr>moving := b\<rparr>) t = sticky_clamp s t"
  by (simp add: sticky_clamp_def Let_def)

lemma move_keeps [simp]:
  "options (move d opts cb s) = options s"
  "children (move d opts cb s) = children s"
  "stage_size (move d opts cb s) = stage_size s"
  "total_size (move d opts cb s) = total_size s"
  "slide_offset_left (move d opts cb s) = slide_offset_left s"
  "slide_offset_right (move d opts cb s) = slide_offset_right s"
  "slides (move d opts cb s) = slides s"
  "currentOffset (move d opts cb s) = currentOffset s"
  "translateX (move d opts cb s) = translateX s"
  by (simp_all add: move_def Let_def split: option.splits)

lemma run_deferred_keeps [simp]:
  "options (run_deferred d s) = options s"
  "children (run_deferred d s) = children s"
  "stage_size (run_deferred d s) = stage_size s"
  "total_size (run_deferred d s) = total_size s"
  "slide_offset_left (run_deferred d s) = slide_offset_left s"
  "slide_offset_right (run_deferred d s) = slide_offset_right s"
  "slides (run_deferred d s) = slides s"
  by (simp_all add: run_deferred_def Let_def)

lemma fold_invoke_keeps [simp]:
  "options (fold invoke ls s) = options s \<and> children (fold invoke ls s) = children s
   \<and> stage_size (fold invoke ls s) = stage_size s \<and> total_size (fold invoke ls s) = total_size s
   \<and> slide_offset_left (fold invoke ls s) = slide_offset_left s
   \<and> slide_offset_right (fold invoke ls s) = slide_offset_right s
   \<and> slides (fold invoke ls s) = slides s \<and> current_slide (fold invoke ls s) = current_slide s
   \<and> currentOffset (fold invoke ls s) = currentOffset s
   \<and> translateX (fold invoke ls s) = translateX s \<and> timers (fold invoke ls s) = timers s"
  by (induction ls arbitrary: s) simp_all

lemma step_keeps [simp]:
  "options (step s i) = options s"
  "children (step s i) = children s"
  "stage_size (step s i) = stage_size s"
  "total_size (step s i) = total_size s"
  "slide_offset_left (step s i) = slide_offset_left s"
  "slide_offset_right (step s i) = slide_offset_right s"
  "slides (step s i) = slides s"
  by (cases i; simp split: list.splits)+

lemma run_keeps [simp]:
  "options (run s ins) = options s \<and> children (run s ins) = children s
   \<and> stage_size (run s ins) = stage_size s \<and> total_size (run s ins) = total_size s
   \<and> slide_offset_left (run s ins) = slide_offset_left s
   \<and> slide_offset_right (run s ins) = slide_offset_right s
   \<and> slides (run s ins) = slides s"
  unfolding run_def by (induction ins arbitrary: s) simp_all

lemma run_Nil [simp]: "run s [] = s"
  by (simp add: run_def)

lemma run_Cons [simp]: "run s (i # ins) = run (step s i) ins"
  by (simp add: run_def)

lemma run_append [simp]: "run s (xs @ ys) = run (run s xs) ys"
  by (simp add: run_def)

section \<open>Properties of move\<close>

lemma three_at_last_facts:
  "current_slide three_at_last = 2" "slides three_at_last = 3" "\<not> moving three_at_last"
  "loop (options three_at_last)"
  by code_simp+

lemma three_at_last_moves:
  "current_slide (step three_at_last (Move 1 timer_opts None)) = 0"
  "current_slide (step three_at_last (Move 1 no_opts None)) = 2"
  by code_simp+

lemma move_index_clamp:
  "move_index s direction opts =
     (if loop (options s) \<and> direction = 1 \<and> event opts = Some ''timer''
         \<and> current_slide s = slides s - 1
      then 0 else min (max (current_slide s + direction) 0) (slides s - 1))"
  by (simp add: move_index_def Let_def min_def max_def)

lemma move_commits:
  "\<not> moving s \<Longrightarrow> move_target s (move_index s direction opts) = Some t \<Longrightarrow>
   current_slide (move direction opts cb s) = move_index s direction opts"
  by (simp add: move_def Let_def)

lemma move_dropped:
  "moving s \<Longrightarrow> move direction opts (User k) s = s\<lparr>called := called s @ [k]\<rparr>"
  "moving s \<Longrightarrow> move direction opts NoCallback s = s"
  by (simp_all add: move_def)

lemma move_aborted:
  "\<not> moving s \<Longrightarrow> move_target s (move_index s direction opts) = None \<Longrightarrow>
   move direction opts (User k) s = s\<lparr>called := called s @ [k]\<rparr>"
  "\<not> moving s \<Longrightarrow> move_target s (move_index s direction opts) = None \<Longrightarrow>
   move direction opts NoCallback s = s"
  by (simp_all add: move_def Let_def)

lemma move_sets_moving:
  "\<not> moving s \<Longrightarrow> move_target s (move_index s direction opts) = Some t \<Longrightarrow>
   moving (move direction opts cb s)"
  by (simp add: move_def Let_def)

text \<open>
  C3. \<^verbatim>\<open>move\<close> wraps the target index to 0 exactly when looping is on, the direction is
  1, the event tag is \<^verbatim>\<open>timer\<close> and the current slide is the last one: for a forward
  move from a current slide that is not negative, with two slides or more, the target index
  is 0 if and only if the four conditions hold; when they do not all hold the target index
  is the current slide plus the direction, clamped to the slides; and a move that is neither
  dropped nor aborted commits the target index. With looping and three slides, a move by 1
  from slide 2 commits slide 0 when tagged \<^verbatim>\<open>timer\<close> and slide 2 with no tag.
\<close>

theorem loop_wraps_only_on_timer:
  "(1 \<le> direction \<and> 2 \<le> slides s \<and> 0 \<le> current_slide s \<longrightarrow>
      (move_index s direction opts = 0) =
        (loop (options s) \<and> direction = 1 \<and> event opts = Some ''timer''
          \<and> current_slide s = slides s - 1))
   \<and> (\<not> (loop (options s) \<and> direction = 1 \<and> event opts = Some ''timer''
            \<and> current_slide s = slides s - 1) \<longrightarrow>
        move_index s direction opts = min (max (current_slide s + direction) 0) (slides s - 1))
   \<and> (\<not> moving s \<and> move_target s (move_index s direction opts) \<noteq> None \<longrightarrow>
        current_slide (move direction opts cb s) = move_index s direction opts)
   \<and> loop (options three_at_last) \<and> slides three_at_last = 3 \<and> current_slide three_at_last = 2
   \<and> current_slide (step three_at_last (Move 1 timer_opts None)) = 0
   \<and> current_slide (step three_at_last (Move 1 no_opts None)) = 2"
proof -
  have a: "1 \<le> direction \<and> 2 \<le> slides s \<and> 0 \<le> current_slide s \<longrightarrow>
      (move_index s direction opts = 0) =
        (loop (options s) \<and> direction = 1 \<and> event opts = Some ''timer''
          \<and> current_slide s = slides s - 1)"
    by (auto simp: move_index_clamp min_def max_def)
  have b: "\<not> (loop (options s) \<and> direction = 1 \<and> event opts = Some ''timer''
            \<and> current_slide s = slides s - 1) \<longrightarrow>
        move_index s direction opts = min (max (current_slide s + direction) 0) (slides s - 1)"
    by (simp add: move_index_clamp)
  have c: "\<not> moving s \<and> move_target s (move_index s direction opts) \<noteq> None \<longrightarrow>
        current_slide (move direction opts cb s) = move_index s direction opts"
    by (auto simp: move_commits)
  from a b c three_at_last_facts three_at_last_moves show ?thesis by blast
qed

theorem loop_wraps_only_on_timer_witness:
  "(1::int) \<le> 1 \<and> 2 \<le> slides three_at_last \<and> 0 \<le> current_slide three_at_last
   \<and> move_index three_at_last 1 timer_opts = 0
   \<and> \<not> moving three_at_last
   \<and> move_target three_at_last (move_index three_at_last 1 timer_opts) \<noteq> None
   \<and> current_slide (move 1 timer_opts NoCallback three_at_last) = 0"
proof -
  have e: "event timer_opts = Some ''timer''" by (simp add: timer_opts_def)
  have t: "move_target three_at_last 0 \<noteq> None" by code_simp
  from loop_wraps_only_on_timer [of 1 three_at_last timer_opts NoCallback]
    three_at_last_facts e t
  show ?thesis by simp
qed

text \<open>
  C5. A call of \<^verbatim>\<open>move\<close> while a move is in flight calls its callback at once and changes
  nothing else: the state it returns is the state it got, with the callback logged. So a
  second call that comes while the first is in flight (a call that was neither dropped nor
  aborted sets the flag) leaves the current slide at the first call's target index, and
  leaves the layout, the raw offset and the pending work as they were.
\<close>

theorem move_in_flight_is_dropped:
  "(moving s \<longrightarrow>
      move direction opts (User k) s = s\<lparr>called := called s @ [k]\<rparr>
      \<and> move direction opts NoCallback s = s)
   \<and> (\<not> moving s \<and> move_target s (move_index s d1 o1) \<noteq> None \<longrightarrow>
        moving (move d1 o1 c1 s)
        \<and> move direction opts (User k) (move d1 o1 c1 s)
            = (move d1 o1 c1 s)\<lparr>called := called (move d1 o1 c1 s) @ [k]\<rparr>
        \<and> current_slide (move direction opts (User k) (move d1 o1 c1 s)) = move_index s d1 o1
        \<and> getCurrentOffset True (move direction opts (User k) (move d1 o1 c1 s))
            = getCurrentOffset True s)"
proof -
  have a: "moving s \<longrightarrow>
      move direction opts (User k) s = s\<lparr>called := called s @ [k]\<rparr>
      \<and> move direction opts NoCallback s = s"
    by (simp add: move_dropped)
  have b: "moving (move d1 o1 c1 s)
        \<and> move direction opts (User k) (move d1 o1 c1 s)
            = (move d1 o1 c1 s)\<lparr>called := called (move d1 o1 c1 s) @ [k]\<rparr>
        \<and> current_slide (move direction opts (User k) (move d1 o1 c1 s)) = move_index s d1 o1
        \<and> getCurrentOffset True (move direction opts (User k) (move d1 o1 c1 s))
            = getCurrentOffset True s"
    if h: "\<not> moving s" "move_target s (move_index s d1 o1) \<noteq> None"
  proof -
    from h obtain t where t: "move_target s (move_index s d1 o1) = Some t" by auto
    have m: "moving (move d1 o1 c1 s)" using h(1) t by (rule move_sets_moving)
    have d: "move direction opts (User k) (move d1 o1 c1 s)
            = (move d1 o1 c1 s)\<lparr>called := called (move d1 o1 c1 s) @ [k]\<rparr>"
      using m by (rule move_dropped)
    have c: "current_slide (move d1 o1 c1 s) = move_index s d1 o1"
      using h(1) t by (rule move_commits)
    have g: "getCurrentOffset True (move d1 o1 c1 s) = getCurrentOffset True s"
      by (simp add: getCurrentOffset_def)
    from m d c g show ?thesis by (simp add: getCurrentOffset_def)
  qed
  from a b show ?thesis by blast
qed

theorem move_in_flight_is_dropped_witness:
  "moving (step (attached four_options four_children 250 400) (Move 1 no_opts None))
   \<and> current_slide (move 1 no_opts (User 7)
        (step (attached four_options four_children 250 400) (Move 1 no_opts None))) = 1
   \<and> called (move 1 no_opts (User 7)
        (step (attached four_options four_children 250 400) (Move 1 no_opts None))) = [7]"
proof -
  have m: "moving (step (attached four_options four_children 250 400) (Move 1 no_opts None))"
    by code_simp
  have c: "current_slide (step (attached four_options four_children 250 400) (Move 1 no_opts None)) = 1"
    "called (step (attached four_options four_children 250 400) (Move 1 no_opts None)) = []"
    by code_simp+
  from move_in_flight_is_dropped
    [of "step (attached four_options four_children 250 400) (Move 1 no_opts None)" 1 no_opts 7]
    m c
  show ?thesis by simp
qed

text \<open>
  C9. In single-flex mode (no slide size configured), when no child stands at the target
  index, a call of \<^verbatim>\<open>move\<close> that is not dropped returns the state it got with the
  callback logged: the in-flight flag is clear, the current slide, the raw offset and the
  pending work are unchanged, and nothing is raised (\<^verbatim>\<open>move\<close> has no error result).
\<close>

theorem single_flex_abort:
  "\<not> moving s \<and> slide_size (options s) = Auto \<and> slide_mode (options s) = SingleFlex
   \<and> \<not> (0 \<le> move_index s direction opts
          \<and> nat (move_index s direction opts) < length (children s)) \<longrightarrow>
   move direction opts (User k) s = s\<lparr>called := called s @ [k]\<rparr>
   \<and> move direction opts NoCallback s = s
   \<and> \<not> moving (move direction opts (User k) s)
   \<and> current_slide (move direction opts (User k) s) = current_slide s
   \<and> getCurrentOffset True (move direction opts (User k) s) = getCurrentOffset True s"
proof -
  have "move direction opts (User k) s = s\<lparr>called := called s @ [k]\<rparr>
   \<and> move direction opts NoCallback s = s
   \<and> \<not> moving (move direction opts (User k) s)
   \<and> current_slide (move direction opts (User k) s) = current_slide s
   \<and> getCurrentOffset True (move direction opts (User k) s) = getCurrentOffset True s"
    if h: "\<not> moving s" "slide_size (options s) = Auto" "slide_mode (options s) = SingleFlex"
      "\<not> (0 \<le> move_index s direction opts
          \<and> nat (move_index s direction opts) < length (children s))"
  proof -
    from h(2-4) have n: "move_target s (move_index s direction opts) = None"
      by (auto simp: move_target_def)
    from h(1) n show ?thesis
      by (simp add: move_aborted getCurrentOffset_def)
  qed
  then show ?thesis by blast
qed

theorem single_flex_abort_witness:
  "\<not> moving (attached (three_options\<lparr>slide_mode := SingleFlex\<rparr>) [] 300 0)
   \<and> slides (attached (three_options\<lparr>slide_mode := SingleFlex\<rparr>) [] 300 0) = 1
   \<and> move_index (attached (three_options\<lparr>slide_mode := SingleFlex\<rparr>) [] 300 0) 0 no_opts = 0
   \<and> move 0 no_opts (User 5) (attached (three_options\<lparr>slide_mode := SingleFlex\<rparr>) [] 300 0)
       = (attached (three_options\<lparr>slide_mode := SingleFlex\<rparr>) [] 300 0)\<lparr>called := [5]\<rparr>"
proof -
  let ?s = "attached (three_options\<lparr>slide_mode := SingleFlex\<rparr>) [] 300 0"
  have f: "\<not> moving ?s" "slide_size (options ?s) = Auto" "slide_mode (options ?s) = SingleFlex"
    "children ?s = []" "slides ?s = 1" "move_index ?s 0 no_opts = 0" "called ?s = []"
    by code_simp+
  from single_flex_abort [of ?s 0 no_opts 5] f show ?thesis by simp
qed

section \<open>Properties of calculate\<close>

subsection \<open>The packing loop\<close>

lemma pack_loop:
  "pack stage s c xs = (S, rest) \<Longrightarrow> xs \<noteq> [] \<Longrightarrow>
   \<exists>k<length xs. S = s + c + sum_list (map offsetWidth (take k xs)) \<and> rest = drop (Suc k) xs
      \<and> (\<forall>j<k. s + c + sum_list (map offsetWidth (take (Suc j) xs)) \<le> stage)
      \<and> (rest \<noteq> [] \<longrightarrow> stage < S + offsetWidth (xs ! k))"
proof (induction xs arbitrary: s c)
  case Nil
  then show ?case by simp
next
  case (Cons x xs)
  show ?case
  proof (cases "s + c + offsetWidth x \<le> stage \<and> xs \<noteq> []")
    case True
    with Cons.prems have p: "pack stage (s + c) (offsetWidth x) xs = (S, rest)"
      by (simp add: Let_def)
    from True have ne: "xs \<noteq> []" by simp
    from Cons.IH [OF p ne] obtain k where k: "k < length xs"
      "S = s + c + offsetWidth x + sum_list (map offsetWidth (take k xs))"
      "rest = drop (Suc k) xs"
      "\<forall>j<k. s + c + offsetWidth x + sum_list (map offsetWidth (take (Suc j) xs)) \<le> stage"
      "rest \<noteq> [] \<longrightarrow> stage < S + offsetWidth (xs ! k)"
      by blast
    have "s + c + sum_list (map offsetWidth (take (Suc j) (x # xs))) \<le> stage" if "j < Suc k" for j
    proof (cases j)
      case 0
      with True show ?thesis by simp
    next
      case (Suc i)
      with that k(4) show ?thesis by (simp add: add.assoc)
    qed
    with k show ?thesis
      by (intro exI [of _ "Suc k"]) (simp add: add.assoc)
  next
    case False
    with Cons.prems have "S = s + c" "rest = xs"
      by (auto simp: Let_def)
    with False show ?thesis
      by (intro exI [of _ 0]) auto
  qed
qed

lemma raw_slide_size_getTotalSize [simp]:
  "raw_slide_size stage totalSize (getTotalSize s) = raw_slide_size stage totalSize s"
  by (simp add: raw_slide_size_def getTotalSize_def move_raw_def Let_def
      split: size_option.splits list.splits)

lemma calculate_offsets:
  "slide_offset_left (calculate stage totalSize s) + slide_offset_right (calculate stage totalSize s)
     = stage - resolve_size stage (raw_slide_size stage totalSize s)"
  by (simp add: calculate_def Let_def split: alignment.splits)

lemma multiple_slide_width:
  assumes auto: "slide_size (options s) = Auto" and multi: "slide_mode (options s) = Multiple"
    and ne: "children s \<noteq> []" and stage: "0 \<le> stage"
  shows "\<exists>k<length (children s).
      (\<forall>j<k. sum_list (map offsetWidth (take (Suc j) (children s))) \<le> stage)
      \<and> sum_list (map offsetWidth (take k (children s))) \<le> stage
      \<and> (Suc k < length (children s) \<longrightarrow>
            stage < sum_list (map offsetWidth (take (Suc k) (children s))))
      \<and> resolve_size stage (raw_slide_size stage totalSize s) =
          (if Suc k = length (children s)
              \<and> sum_list (map offsetWidth (take k (children s))) < totalSize
           then stage else sum_list (map offsetWidth (take k (children s))))"
proof -
  obtain S rest where p: "pack stage 0 0 (children s) = (S, rest)"
    by (cases "pack stage 0 0 (children s)") auto
  from ne obtain c cs where cs: "children s = c # cs" by (cases "children s") auto
  from pack_loop [OF p ne] have "\<exists>k<length (children s).
      S = sum_list (map offsetWidth (take k (children s)))
      \<and> rest = drop (Suc k) (children s)
      \<and> (\<forall>j<k. sum_list (map offsetWidth (take (Suc j) (children s))) \<le> stage)
      \<and> (rest \<noteq> [] \<longrightarrow> stage < S + offsetWidth (children s ! k))"
    by simp
  then obtain k where k: "k < length (children s)"
    "S = sum_list (map offsetWidth (take k (children s)))"
    "rest = drop (Suc k) (children s)"
    "\<forall>j<k. sum_list (map offsetWidth (take (Suc j) (children s))) \<le> stage"
    "rest \<noteq> [] \<longrightarrow> stage < S + offsetWidth (children s ! k)"
    by blast
  have le: "S \<le> stage"
  proof (cases k)
    case 0
    with k(2) stage show ?thesis by simp
  next
    case (Suc i)
    with k(4) have "sum_list (map offsetWidth (take (Suc i) (children s))) \<le> stage" by simp
    with Suc k(2) show ?thesis by simp
  qed
  have more: "stage < sum_list (map offsetWidth (take (Suc k) (children s)))"
    if "Suc k < length (children s)"
  proof -
    from that k(3) have "rest \<noteq> []" by simp
    with k(5) have "stage < S + offsetWidth (children s ! k)" by simp
    with k(1,2) show ?thesis by (simp add: take_Suc_conv_app_nth)
  qed
  have last: "rest = [] \<longleftrightarrow> Suc k = length (children s)"
    using k(1,3) by auto
  have z: "resolve_size stage (raw_slide_size stage totalSize s)
      = (if rest = [] \<and> S < totalSize then stage else S)"
    using auto multi cs p by (simp add: raw_slide_size_def resolve_size_def)
  have "resolve_size stage (raw_slide_size stage totalSize s) =
          (if Suc k = length (children s)
              \<and> sum_list (map offsetWidth (take k (children s))) < totalSize
           then stage else sum_list (map offsetWidth (take k (children s))))"
    unfolding z last k(2) ..
  with k(1,4) le more show ?thesis unfolding k(2) by blast
qed

lemma four_facts:
  "resolve_size 250 (raw_slide_size 250 400 (new_carousel four_options four_children)) = 200"
  "slides (attached four_options four_children 250 400) = 2"
  "slide_offset_left (attached four_options four_children 250 400) = 0"
  "slide_offset_right (attached four_options four_children 250 400) = 50"
  "map d_target (timers (step (attached four_options four_children 250 400)
      (Move 1 no_opts None))) = [150]"
  "currentOffset (run (attached four_options four_children 250 400)
      [Move 1 no_opts None, Tick]) = Some (- 150)"
  "current_slide (run (attached four_options four_children 250 400)
      [Move 1 no_opts None, Tick]) = 1"
  by code_simp+

lemma three_children_facts:
  "map offsetWidth (take 3 four_children) = [100, 100, 100]"
  "fst (pack 250 0 0 (take 3 four_children)) = 200"
  "resolve_size 250 (raw_slide_size 250 300 (new_carousel four_options (take 3 four_children)))
     = 250"
  "sum_list (map offsetWidth (take 2 (take 3 four_children))) = 200"
  "slides (attached four_options (take 3 four_children) 250 300) = 2"
  "fst (pack 250 0 0 (take 2 four_children)) = 100"
  "sum_list (map offsetWidth (take 2 four_children)) = 200"
  by code_simp+

text \<open>
  C2, as amended. In the default mode with no slide size configured and at least one child,
  the packing loop adds up the widths of the leading whole children for as long as the sum
  with the next child does not exceed the stage width and a child follows that one; the sum
  never exceeds the stage width (which is not negative). When the loop stops with a child
  still following, the slide width is that sum, and the next child would exceed the stage.
  When it stops on the last child, which it never adds, the slide width is the full stage
  width if the sum is less than the total size, and the sum otherwise. The two alignment
  offsets that \<^verbatim>\<open>calculate\<close> stores add up to the stage width less the slide width. For
  four children of 100 in a stage of 250, aligned left with sticky ends and a total size of
  400: the slide width is 200, there are 2 slides, and moving to slide 1 commits the target
  offset 150, which the delayed function renders as the offset -150.
\<close>

theorem multiple_mode_packing:
  "(slide_size (options s) = Auto \<and> slide_mode (options s) = Multiple \<and> children s \<noteq> []
      \<and> 0 \<le> stage \<longrightarrow>
      (\<exists>k<length (children s).
          (\<forall>j<k. sum_list (map offsetWidth (take (Suc j) (children s))) \<le> stage)
          \<and> sum_list (map offsetWidth (take k (children s))) \<le> stage
          \<and> (Suc k < length (children s) \<longrightarrow>
                stage < sum_list (map offsetWidth (take (Suc k) (children s))))
          \<and> resolve_size stage (raw_slide_size stage totalSize s) =
              (if Suc k = length (children s)
                  \<and> sum_list (map offsetWidth (take k (children s))) < totalSize
               then stage else sum_list (map offsetWidth (take k (children s))))))
   \<and> slide_offset_left (calculate stage totalSize s)
        + slide_offset_right (calculate stage totalSize s)
       = stage - resolve_size stage (raw_slide_size stage totalSize s)
   \<and> resolve_size 250 (raw_slide_size 250 400 (new_carousel four_options four_children)) = 200
   \<and> slides (attached four_options four_children 250 400) = 2
   \<and> map d_target (timers (step (attached four_options four_children 250 400)
        (Move 1 no_opts None))) = [150]
   \<and> current_slide (run (attached four_options four_children 250 400)
        [Move 1 no_opts None, Tick]) = 1
   \<and> currentOffset (run (attached four_options four_children 250 400)
        [Move 1 no_opts None, Tick]) = Some (- 150)"
  using multiple_slide_width [of s stage totalSize] calculate_offsets [of stage totalSize s]
    four_facts
  by blast

theorem multiple_mode_packing_witness:
  "slide_size (options (new_carousel four_options four_children)) = Auto
   \<and> slide_mode (options (new_carousel four_options four_children)) = Multiple
   \<and> children (new_carousel four_options four_children) \<noteq> []
   \<and> resolve_size 250 (raw_slide_size 250 400 (new_carousel four_options four_children)) = 200
   \<and> (\<exists>k<length (children (new_carousel four_options four_children)).
         sum_list (map offsetWidth
           (take k (children (new_carousel four_options four_children)))) = 200)
   \<and> slide_offset_left (calculate 250 400 (new_carousel four_options four_children))
        + slide_offset_right (calculate 250 400 (new_carousel four_options four_children)) = 50"
proof -
  let ?s = "new_carousel four_options four_children"
  have f: "slide_size (options ?s) = Auto" "slide_mode (options ?s) = Multiple"
    "children ?s \<noteq> []"
    by code_simp+
  have z: "resolve_size 250 (raw_slide_size 250 400 ?s) = 200" by code_simp
  note t = multiple_mode_packing [of ?s 250 400]
  from t f obtain k where k: "k < length (children ?s)"
    "resolve_size 250 (raw_slide_size 250 400 ?s) =
      (if Suc k = length (children ?s)
          \<and> sum_list (map offsetWidth (take k (children ?s))) < 400
       then 250 else sum_list (map offsetWidth (take k (children ?s))))"
    by auto
  from k(2) have "sum_list (map offsetWidth (take k (children ?s))) = 200"
    unfolding z by (simp split: if_splits)
  with k(1) have e: "\<exists>k<length (children ?s).
      sum_list (map offsetWidth (take k (children ?s))) = 200" by blast
  from t have "slide_offset_left (calculate 250 400 ?s) + slide_offset_right (calculate 250 400 ?s)
      = 250 - resolve_size 250 (raw_slide_size 250 400 ?s)" by blast
  then have o: "slide_offset_left (calculate 250 400 ?s) + slide_offset_right (calculate 250 400 ?s)
      = 50" unfolding z by simp
  from f z e o show ?thesis by blast
qed

text \<open>
  C2, as stated, fails. Three children of 100 in a stage of 250 with a total size of 300: two
  whole children fit (200), and the loop adds up 200, but it stops on the last child with less
  than the total size, so the slide width is the full stage, 250, which is no sum of whole
  children. Two children of 100 in a stage of 250: both fit (200), but the loop never adds the
  last child and adds up 100.
\<close>

theorem packing_fallback_counterexample:
  "slide_size four_options = Auto \<and> slide_mode four_options = Multiple
   \<and> map offsetWidth (take 3 four_children) = [100, 100, 100]
   \<and> fst (pack 250 0 0 (take 3 four_children)) = 200
   \<and> resolve_size 250 (raw_slide_size 250 300 (new_carousel four_options (take 3 four_children)))
       = 250
   \<and> resolve_size 250 (raw_slide_size 250 300 (new_carousel four_options (take 3 four_children)))
       \<noteq> sum_list (map offsetWidth (take 2 (take 3 four_children)))
   \<and> slides (attached four_options (take 3 four_children) 250 300) = 2
   \<and> sum_list (map offsetWidth (take 2 four_children)) \<le> 250
   \<and> fst (pack 250 0 0 (take 2 four_children)) = 100"
proof -
  have o: "slide_size four_options = Auto" "slide_mode four_options = Multiple"
    by (simp_all add: four_options_def)
  from o three_children_facts show ?thesis by simp
qed

section \<open>Properties of the touch drag\<close>

lemma resistance_left:
  "start_scroll g - dx < left_boundary s \<Longrightarrow>
   resistance s g dx =
     (g\<lparr>resistanceTargetLeft := Some (case resistanceTargetLeft g of None \<Rightarrow> \<bar>dx\<bar> | Some r \<Rightarrow> r)\<rparr>,
      start_scroll g - dx
        + (\<bar>dx\<bar> - (case resistanceTargetLeft g of None \<Rightarrow> \<bar>dx\<bar> | Some r \<Rightarrow> r)) / 1.25)"
  by (simp add: resistance_def left_boundary_def Let_def)

lemma resistance_right:
  "\<not> start_scroll g - dx < left_boundary s \<Longrightarrow> right_boundary s < start_scroll g - dx \<Longrightarrow>
   resistance s g dx =
     (g\<lparr>resistanceTargetRight := Some (case resistanceTargetRight g of None \<Rightarrow> \<bar>dx\<bar> | Some r \<Rightarrow> r)\<rparr>,
      start_scroll g - dx
        - (\<bar>dx\<bar> - (case resistanceTargetRight g of None \<Rightarrow> \<bar>dx\<bar> | Some r \<Rightarrow> r)) / 1.25)"
  by (simp add: resistance_def left_boundary_def right_boundary_def Let_def)

lemma resistance_inside:
  "left_boundary s \<le> start_scroll g - dx \<Longrightarrow> start_scroll g - dx \<le> right_boundary s \<Longrightarrow>
   resistance s g dx =
     (g\<lparr>resistanceTargetLeft := None, resistanceTargetRight := None\<rparr>, start_scroll g - dx)"
  by (simp add: resistance_def left_boundary_def right_boundary_def Let_def)

lemma resistance_start_scroll [simp]: "start_scroll (fst (resistance s g dx)) = start_scroll g"
  by (simp add: resistance_def Let_def)

lemma twice_left:
  assumes p1: "start_scroll g - dx1 < left_boundary s"
    and p2: "start_scroll g - dx2 < left_boundary s"
  shows "resistance s g dx1 =
      (g\<lparr>resistanceTargetLeft :=
          Some (case resistanceTargetLeft g of None \<Rightarrow> \<bar>dx1\<bar> | Some r \<Rightarrow> r)\<rparr>,
       start_scroll g - dx1
         + (\<bar>dx1\<bar> - (case resistanceTargetLeft g of None \<Rightarrow> \<bar>dx1\<bar> | Some r \<Rightarrow> r)) / 1.25)"
    and "resistance s
       (g\<lparr>resistanceTargetLeft :=
          Some (case resistanceTargetLeft g of None \<Rightarrow> \<bar>dx1\<bar> | Some r \<Rightarrow> r)\<rparr>) dx2 =
      (g\<lparr>resistanceTargetLeft :=
          Some (case resistanceTargetLeft g of None \<Rightarrow> \<bar>dx1\<bar> | Some r \<Rightarrow> r)\<rparr>,
       start_scroll g - dx2
         + (\<bar>dx2\<bar> - (case resistanceTargetLeft g of None \<Rightarrow> \<bar>dx1\<bar> | Some r \<Rightarrow> r)) / 1.25)"
proof -
  let ?a = "case resistanceTargetLeft g of None \<Rightarrow> \<bar>dx1\<bar> | Some r \<Rightarrow> r"
  let ?g1 = "g\<lparr>resistanceTargetLeft := Some ?a\<rparr>"
  show r1: "resistance s g dx1 = (?g1, start_scroll g - dx1 + (\<bar>dx1\<bar> - ?a) / 1.25)"
    using p1 by (rule resistance_left)
  have p2': "start_scroll ?g1 - dx2 < left_boundary s" using p2 by simp
  show "resistance s ?g1 dx2
      = (?g1, start_scroll g - dx2 + (\<bar>dx2\<bar> - ?a) / 1.25)"
    using resistance_left [OF p2'] by simp
qed

lemma twice_right:
  assumes n1: "left_boundary s \<le> start_scroll g - dx1"
    and n2: "left_boundary s \<le> start_scroll g - dx2"
    and p1: "right_boundary s < start_scroll g - dx1"
    and p2: "right_boundary s < start_scroll g - dx2"
  shows "resistance s g dx1 =
      (g\<lparr>resistanceTargetRight :=
          Some (case resistanceTargetRight g of None \<Rightarrow> \<bar>dx1\<bar> | Some r \<Rightarrow> r)\<rparr>,
       start_scroll g - dx1
         - (\<bar>dx1\<bar> - (case resistanceTargetRight g of None \<Rightarrow> \<bar>dx1\<bar> | Some r \<Rightarrow> r)) / 1.25)"
    and "resistance s
       (g\<lparr>resistanceTargetRight :=
          Some (case resistanceTargetRight g of None \<Rightarrow> \<bar>dx1\<bar> | Some r \<Rightarrow> r)\<rparr>) dx2 =
      (g\<lparr>resistanceTargetRight :=
          Some (case resistanceTargetRight g of None \<Rightarrow> \<bar>dx1\<bar> | Some r \<Rightarrow> r)\<rparr>,
       start_scroll g - dx2
         - (\<bar>dx2\<bar> - (case resistanceTargetRight g of None \<Rightarrow> \<bar>dx1\<bar> | Some r \<Rightarrow> r)) / 1.25)"
proof -
  let ?a = "case resistanceTargetRight g of None \<Rightarrow> \<bar>dx1\<bar> | Some r \<Rightarrow> r"
  let ?g1 = "g\<lparr>resistanceTargetRight := Some ?a\<rparr>"
  from n1 have m1: "\<not> start_scroll g - dx1 < left_boundary s" by simp
  from n2 have m2: "\<not> start_scroll ?g1 - dx2 < left_boundary s" by simp
  show r1: "resistance s g dx1 = (?g1, start_scroll g - dx1 - (\<bar>dx1\<bar> - ?a) / 1.25)"
    using m1 p1 by (rule resistance_right)
  have p2': "right_boundary s < start_scroll ?g1 - dx2" using p2 by simp
  show "resistance s ?g1 dx2
      = (?g1, start_scroll g - dx2 - (\<bar>dx2\<bar> - ?a) / 1.25)"
    using resistance_right [OF m2 p2'] by simp
qed

lemma onTouchMove_swipe:
  assumes "isScrolling g = Some False" and "3 < \<bar>x - start_x g\<bar>"
  shows "onTouchMove \<lparr>touches = [(x, y)], scale = None\<rparr> (g, s) =
     Inr (fst (resistance s (g\<lparr>delta := Some (x - start_x g, y - start_y g)\<rparr>) (x - start_x g)),
          move_raw (- snd (resistance s (g\<lparr>delta := Some (x - start_x g, y - start_y g)\<rparr>)
                            (x - start_x g))) False s)"
  using assms by (simp add: onTouchMove_def Let_def split: prod.splits)

lemma drag_facts:
  "rendered (drag [finger_at 10] (drag_start, attached three_options three_children 300 900))
     = Some 10"
  "rendered (drag [finger_at 10, finger_at 20]
      (drag_start, attached three_options three_children 300 900)) = Some 12"
  by code_simp+

text \<open>
  C6, as amended. While the target of a drag is past the left boundary (which the handler
  tests first), or past the right boundary and not past the left one, the anchor of that side
  is the size of the delta at the first touchmove that finds it there, and the target is taken
  back by the growth of the size of the delta since the anchor, divided by 1.25. For a delta
  that points outwards (not negative past the left boundary, not positive past the right one)
  and goes on outwards, the live target so advances by the raw advance less 1/1.25 of it, a
  fifth of the raw advance: strictly less than the undamped 1:1 advance, and still forwards.
  For a delta of the other sign (a gesture that started beyond the boundary) the live target
  advances by the raw advance plus 1/1.25 of it, more than 1:1. A target inside the boundaries
  is applied as it is, and both anchors are reset. The touchmove handler of a swipe renders
  the negated target of the resistance block without recording it as the current offset.
  The arithmetic is exact here; the code's quotient by 1.25 is rounded to a double.
\<close>

theorem resistance_damps_drag:
  "(start_scroll g - dx1 < left_boundary s \<and> start_scroll g - dx2 < left_boundary s \<longrightarrow>
      resistanceTargetLeft (fst (resistance s g dx1))
        = Some (case resistanceTargetLeft g of None \<Rightarrow> \<bar>dx1\<bar> | Some r \<Rightarrow> r)
      \<and> resistanceTargetLeft (fst (resistance s (fst (resistance s g dx1)) dx2))
        = resistanceTargetLeft (fst (resistance s g dx1))
      \<and> snd (resistance s g dx1) - snd (resistance s (fst (resistance s g dx1)) dx2)
        = (dx2 - dx1) - (\<bar>dx2\<bar> - \<bar>dx1\<bar>) / 1.25)
   \<and> (start_scroll g - dx1 < left_boundary s \<and> start_scroll g - dx2 < left_boundary s
      \<and> 0 \<le> dx1 \<and> dx1 < dx2 \<longrightarrow>
      snd (resistance s g dx1) - snd (resistance s (fst (resistance s g dx1)) dx2)
        = (dx2 - dx1) - (dx2 - dx1) / 1.25
      \<and> snd (resistance s g dx1) - snd (resistance s (fst (resistance s g dx1)) dx2)
        = (dx2 - dx1) / 5
      \<and> snd (resistance s g dx1) - snd (resistance s (fst (resistance s g dx1)) dx2)
        < dx2 - dx1
      \<and> 0 < snd (resistance s g dx1) - snd (resistance s (fst (resistance s g dx1)) dx2))
   \<and> (start_scroll g - dx1 < left_boundary s \<and> start_scroll g - dx2 < left_boundary s
      \<and> dx1 < dx2 \<and> dx2 \<le> 0 \<longrightarrow>
      snd (resistance s g dx1) - snd (resistance s (fst (resistance s g dx1)) dx2)
        = (dx2 - dx1) + (dx2 - dx1) / 1.25
      \<and> dx2 - dx1 < snd (resistance s g dx1) - snd (resistance s (fst (resistance s g dx1)) dx2))
   \<and> (left_boundary s \<le> start_scroll g - dx1 \<and> left_boundary s \<le> start_scroll g - dx2
      \<and> right_boundary s < start_scroll g - dx1 \<and> right_boundary s < start_scroll g - dx2 \<longrightarrow>
      resistanceTargetRight (fst (resistance s g dx1))
        = Some (case resistanceTargetRight g of None \<Rightarrow> \<bar>dx1\<bar> | Some r \<Rightarrow> r)
      \<and> resistanceTargetRight (fst (resistance s (fst (resistance s g dx1)) dx2))
        = resistanceTargetRight (fst (resistance s g dx1))
      \<and> snd (resistance s (fst (resistance s g dx1)) dx2) - snd (resistance s g dx1)
        = (dx1 - dx2) - (\<bar>dx2\<bar> - \<bar>dx1\<bar>) / 1.25)
   \<and> (left_boundary s \<le> start_scroll g - dx1 \<and> left_boundary s \<le> start_scroll g - dx2
      \<and> right_boundary s < start_scroll g - dx1 \<and> right_boundary s < start_scroll g - dx2
      \<and> dx1 \<le> 0 \<and> dx2 < dx1 \<longrightarrow>
      snd (resistance s (fst (resistance s g dx1)) dx2) - snd (resistance s g dx1)
        = (dx1 - dx2) - (dx1 - dx2) / 1.25
      \<and> snd (resistance s (fst (resistance s g dx1)) dx2) - snd (resistance s g dx1)
        = (dx1 - dx2) / 5
      \<and> snd (resistance s (fst (resistance s g dx1)) dx2) - snd (resistance s g dx1)
        < dx1 - dx2
      \<and> 0 < snd (resistance s (fst (resistance s g dx1)) dx2) - snd (resistance s g dx1))
   \<and> (left_boundary s \<le> start_scroll g - dx1 \<and> left_boundary s \<le> start_scroll g - dx2
      \<and> right_boundary s < start_scroll g - dx1 \<and> right_boundary s < start_scroll g - dx2
      \<and> dx2 < dx1 \<and> 0 \<le> dx2 \<longrightarrow>
      snd (resistance s (fst (resistance s g dx1)) dx2) - snd (resistance s g dx1)
        = (dx1 - dx2) + (dx1 - dx2) / 1.25
      \<and> dx1 - dx2 < snd (resistance s (fst (resistance s g dx1)) dx2) - snd (resistance s g dx1))
   \<and> (left_boundary s \<le> start_scroll g - dx \<and> start_scroll g - dx \<le> right_boundary s \<longrightarrow>
      resistance s g dx
        = (g\<lparr>resistanceTargetLeft := None, resistanceTargetRight := None\<rparr>, start_scroll g - dx))
   \<and> (isScrolling g = Some False \<and> 3 < \<bar>x - start_x g\<bar> \<longrightarrow>
      onTouchMove \<lparr>touches = [(x, y)], scale = None\<rparr> (g, s) =
        Inr (fst (resistance s (g\<lparr>delta := Some (x - start_x g, y - start_y g)\<rparr>)
                   (x - start_x g)),
             move_raw (- snd (resistance s (g\<lparr>delta := Some (x - start_x g, y - start_y g)\<rparr>)
                               (x - start_x g))) False s))"
proof -
  have l0: "resistanceTargetLeft (fst (resistance s g dx1))
        = Some (case resistanceTargetLeft g of None \<Rightarrow> \<bar>dx1\<bar> | Some r \<Rightarrow> r)
      \<and> resistanceTargetLeft (fst (resistance s (fst (resistance s g dx1)) dx2))
        = resistanceTargetLeft (fst (resistance s g dx1))
      \<and> snd (resistance s g dx1) - snd (resistance s (fst (resistance s g dx1)) dx2)
        = (dx2 - dx1) - (\<bar>dx2\<bar> - \<bar>dx1\<bar>) / 1.25"
    if h: "start_scroll g - dx1 < left_boundary s" "start_scroll g - dx2 < left_boundary s"
  proof -
    note e = twice_left [OF h(1) h(2)]
    show ?thesis by (simp add: e field_simps)
  qed
  have l1: "snd (resistance s g dx1) - snd (resistance s (fst (resistance s g dx1)) dx2)
        = (dx2 - dx1) - (dx2 - dx1) / 1.25
      \<and> snd (resistance s g dx1) - snd (resistance s (fst (resistance s g dx1)) dx2)
        = (dx2 - dx1) / 5
      \<and> snd (resistance s g dx1) - snd (resistance s (fst (resistance s g dx1)) dx2)
        < dx2 - dx1
      \<and> 0 < snd (resistance s g dx1) - snd (resistance s (fst (resistance s g dx1)) dx2)"
    if h: "start_scroll g - dx1 < left_boundary s" "start_scroll g - dx2 < left_boundary s" "0 \<le> dx1" "dx1 < dx2"
  proof -
    note e = twice_left [OF h(1) h(2)]
    from h(3,4) have ab: "\<bar>dx1\<bar> = dx1" "\<bar>dx2\<bar> = dx2" by simp_all
    have d: "snd (resistance s g dx1) - snd (resistance s (fst (resistance s g dx1)) dx2) = (dx2 - dx1) / 5"
      by (simp add: e ab field_simps)
    have v: "(dx2 - dx1) / 5 = (dx2 - dx1) - (dx2 - dx1) / 1.25" by (simp add: field_simps)
    have lt: "(dx2 - dx1) / 5 < dx2 - dx1" "0 < (dx2 - dx1) / 5" using h(4) by simp_all
    show ?thesis unfolding d using v lt by blast
  qed
  have l2: "snd (resistance s g dx1) - snd (resistance s (fst (resistance s g dx1)) dx2)
        = (dx2 - dx1) + (dx2 - dx1) / 1.25
      \<and> dx2 - dx1 < snd (resistance s g dx1) - snd (resistance s (fst (resistance s g dx1)) dx2)"
    if h: "start_scroll g - dx1 < left_boundary s" "start_scroll g - dx2 < left_boundary s" "dx1 < dx2" "dx2 \<le> 0"
  proof -
    note e = twice_left [OF h(1) h(2)]
    from h(3,4) have ab: "\<bar>dx1\<bar> = - dx1" "\<bar>dx2\<bar> = - dx2" by simp_all
    have d: "snd (resistance s g dx1) - snd (resistance s (fst (resistance s g dx1)) dx2) = (dx2 - dx1) * (9 / 5)"
      by (simp add: e ab field_simps)
    have v: "(dx2 - dx1) * (9 / 5) = (dx2 - dx1) + (dx2 - dx1) / 1.25" by (simp add: field_simps)
    have lt: "dx2 - dx1 < (dx2 - dx1) * (9 / 5)" using h(3) by simp
    show ?thesis unfolding d using v lt by blast
  qed
  have r0: "resistanceTargetRight (fst (resistance s g dx1))
        = Some (case resistanceTargetRight g of None \<Rightarrow> \<bar>dx1\<bar> | Some r \<Rightarrow> r)
      \<and> resistanceTargetRight (fst (resistance s (fst (resistance s g dx1)) dx2))
        = resistanceTargetRight (fst (resistance s g dx1))
      \<and> snd (resistance s (fst (resistance s g dx1)) dx2) - snd (resistance s g dx1)
        = (dx1 - dx2) - (\<bar>dx2\<bar> - \<bar>dx1\<bar>) / 1.25"
    if h: "left_boundary s \<le> start_scroll g - dx1" "left_boundary s \<le> start_scroll g - dx2" "right_boundary s < start_scroll g - dx1" "right_boundary s < start_scroll g - dx2"
  proof -
    note e = twice_right [OF h(1) h(2) h(3) h(4)]
    show ?thesis by (simp add: e field_simps)
  qed
  have r1: "snd (resistance s (fst (resistance s g dx1)) dx2) - snd (resistance s g dx1)
        = (dx1 - dx2) - (dx1 - dx2) / 1.25
      \<and> snd (resistance s (fst (resistance s g dx1)) dx2) - snd (resistance s g dx1)
        = (dx1 - dx2) / 5
      \<and> snd (resistance s (fst (resistance s g dx1)) dx2) - snd (resistance s g dx1)
        < dx1 - dx2
      \<and> 0 < snd (resistance s (fst (resistance s g dx1)) dx2) - snd (resistance s g dx1)"
    if h: "left_boundary s \<le> start_scroll g - dx1" "left_boundary s \<le> start_scroll g - dx2" "right_boundary s < start_scroll g - dx1" "right_boundary s < start_scroll g - dx2" "dx1 \<le> 0" "dx2 < dx1"
  proof -
    note e = twice_right [OF h(1) h(2) h(3) h(4)]
    from h(5,6) have ab: "\<bar>dx1\<bar> = - dx1" "\<bar>dx2\<bar> = - dx2" by simp_all
    have d: "snd (resistance s (fst (resistance s g dx1)) dx2) - snd (resistance s g dx1) = (dx1 - dx2) / 5"
      by (simp add: e ab field_simps)
    have v: "(dx1 - dx2) / 5 = (dx1 - dx2) - (dx1 - dx2) / 1.25" by (simp add: field_simps)
    have lt: "(dx1 - dx2) / 5 < dx1 - dx2" "0 < (dx1 - dx2) / 5" using h(6) by simp_all
    show ?thesis unfolding d using v lt by blast
  qed
  have r2: "snd (resistance s (fst (resistance s g dx1)) dx2) - snd (resistance s g dx1)
        = (dx1 - dx2) + (dx1 - dx2) / 1.25
      \<and> dx1 - dx2 < snd (resistance s (fst (resistance s g dx1)) dx2) - snd (resistance s g dx1)"
    if h: "left_boundary s \<le> start_scroll g - dx1" "left_boundary s \<le> start_scroll g - dx2" "right_boundary s < start_scroll g - dx1" "right_boundary s < start_scroll g - dx2" "dx2 < dx1" "0 \<le> dx2"
  proof -
    note e = twice_right [OF h(1) h(2) h(3) h(4)]
    from h(5,6) have ab: "\<bar>dx1\<bar> = dx1" "\<bar>dx2\<bar> = dx2" by simp_all
    have d: "snd (resistance s (fst (resistance s g dx1)) dx2) - snd (resistance s g dx1) = (dx1 - dx2) * (9 / 5)"
      by (simp add: e ab field_simps)
    have v: "(dx1 - dx2) * (9 / 5) = (dx1 - dx2) + (dx1 - dx2) / 1.25" by (simp add: field_simps)
    have lt: "dx1 - dx2 < (dx1 - dx2) * (9 / 5)" using h(5) by simp
    show ?thesis unfolding d using v lt by blast
  qed
  have inside: "left_boundary s \<le> start_scroll g - dx \<and> start_scroll g - dx \<le> right_boundary s \<longrightarrow>
      resistance s g dx
        = (g\<lparr>resistanceTargetLeft := None, resistanceTargetRight := None\<rparr>, start_scroll g - dx)"
    by (simp add: resistance_inside)
  have swipe: "isScrolling g = Some False \<and> 3 < \<bar>x - start_x g\<bar> \<longrightarrow>
      onTouchMove \<lparr>touches = [(x, y)], scale = None\<rparr> (g, s) =
        Inr (fst (resistance s (g\<lparr>delta := Some (x - start_x g, y - start_y g)\<rparr>)
                   (x - start_x g)),
             move_raw (- snd (resistance s (g\<lparr>delta := Some (x - start_x g, y - start_y g)\<rparr>)
                               (x - start_x g))) False s)"
    using onTouchMove_swipe [of g x y s] by blast
  from l0 l1 l2 r0 r1 r2 inside swipe show ?thesis by blast
qed

theorem resistance_damps_drag_witness:
  "start_scroll drag_start - 10 < left_boundary (attached three_options three_children 300 900)
   \<and> start_scroll drag_start - 20 < left_boundary (attached three_options three_children 300 900)
   \<and> resistanceTargetLeft
        (fst (resistance (attached three_options three_children 300 900) drag_start 10)) = Some 10
   \<and> snd (resistance (attached three_options three_children 300 900) drag_start 10)
       - snd (resistance (attached three_options three_children 300 900)
               (fst (resistance (attached three_options three_children 300 900) drag_start 10)) 20)
       = 2
   \<and> snd (resistance (attached three_options three_children 300 900)
            (drag_start\<lparr>start_scroll := - 30\<rparr>) (- 10))
       - snd (resistance (attached three_options three_children 300 900)
               (fst (resistance (attached three_options three_children 300 900)
                      (drag_start\<lparr>start_scroll := - 30\<rparr>) (- 10))) (- 5))
       = 9
   \<and> right_boundary (attached three_options three_children 300 900) = 600
   \<and> snd (resistance (attached three_options three_children 300 900)
            (fst (resistance (attached three_options three_children 300 900)
                   (drag_start\<lparr>start_scroll := 600\<rparr>) (- 10))) (- 20))
       - snd (resistance (attached three_options three_children 300 900)
               (drag_start\<lparr>start_scroll := 600\<rparr>) (- 10))
       = 2"
proof -
  let ?s = "attached three_options three_children 300 900"
  have f: "start_scroll drag_start = 0" "resistanceTargetLeft drag_start = None"
    "left_boundary ?s = 0" "right_boundary ?s = 600"
    by code_simp+
  have g: "start_scroll (drag_start\<lparr>start_scroll := - 30\<rparr>) = - 30"
    "start_scroll (drag_start\<lparr>start_scroll := 600\<rparr>) = 600"
    by simp_all
  from resistance_damps_drag [of drag_start 10 ?s 20] f
  have a: "resistanceTargetLeft (fst (resistance ?s drag_start 10)) = Some 10"
    "snd (resistance ?s drag_start 10)
       - snd (resistance ?s (fst (resistance ?s drag_start 10)) 20) = 2"
    by simp_all
  from resistance_damps_drag [of "drag_start\<lparr>start_scroll := - 30\<rparr>" "- 10" ?s "- 5"] f g
  have b: "snd (resistance ?s (drag_start\<lparr>start_scroll := - 30\<rparr>) (- 10))
       - snd (resistance ?s
               (fst (resistance ?s (drag_start\<lparr>start_scroll := - 30\<rparr>) (- 10))) (- 5)) = 9"
    by simp
  from resistance_damps_drag [of "drag_start\<lparr>start_scroll := 600\<rparr>" "- 10" ?s "- 20"] f g
  have c: "snd (resistance ?s
            (fst (resistance ?s (drag_start\<lparr>start_scroll := 600\<rparr>) (- 10))) (- 20))
       - snd (resistance ?s (drag_start\<lparr>start_scroll := 600\<rparr>) (- 10)) = 2"
    by simp
  from f a b c show ?thesis by simp
qed

text \<open>
  C6, as stated, fails. With sticky ends, a stage of 300 and a total size of 900, a drag that
  starts at offset 0 and is first seen 10 px to the right is rendered at 10 (the anchor); seen
  at 20 px it is rendered at 12, not at 10 + (20 - 10) / 1.25 = 18: the travel past the anchor
  is scaled by 1/5, not by 1/1.25.
\<close>

theorem resistance_scale_counterexample:
  "rendered (drag [finger_at 10] (drag_start, attached three_options three_children 300 900))
     = Some 10
   \<and> rendered (drag [finger_at 10, finger_at 20]
        (drag_start, attached three_options three_children 300 900)) = Some 12
   \<and> rendered (drag [finger_at 10, finger_at 20]
        (drag_start, attached three_options three_children 300 900))
       \<noteq> Some (10 + (20 - 10) / 1.25)"
  using drag_facts by simp

section \<open>Properties of the states that inputs lead to\<close>

subsection \<open>The slide count and the current slide\<close>

lemma getTotalSize_keeps [simp]:
  "options (getTotalSize s) = options s"
  "children (getTotalSize s) = children s"
  "nav (getTotalSize s) = nav s"
  "current_slide (getTotalSize s) = current_slide s"
  "moving (getTotalSize s) = moving s"
  "timers (getTotalSize s) = timers s"
  "listeners (getTotalSize s) = listeners s"
  "moved (getTotalSize s) = moved s"
  "called (getTotalSize s) = called s"
  by (simp_all add: getTotalSize_def Let_def)

lemma calculate_keeps [simp]:
  "options (calculate stage totalSize s) = options s"
  "children (calculate stage totalSize s) = children s"
  "current_slide (calculate stage totalSize s) = current_slide s"
  "moving (calculate stage totalSize s) = moving s"
  "timers (calculate stage totalSize s) = timers s"
  "listeners (calculate stage totalSize s) = listeners s"
  "moved (calculate stage totalSize s) = moved s"
  "called (calculate stage totalSize s) = called s"
  "stage_size (calculate stage totalSize s) = stage"
  "total_size (calculate stage totalSize s) = totalSize"
  by (simp_all add: calculate_def Let_def)

lemma pack_nonneg:
  "0 \<le> s \<Longrightarrow> 0 \<le> c \<Longrightarrow> \<forall>x\<in>set xs. 0 \<le> offsetWidth x \<Longrightarrow> 0 \<le> fst (pack stage s c xs)"
  by (induction xs arbitrary: s c) (simp_all add: Let_def)

lemma raw_slide_size_nonneg:
  assumes "0 \<le> stage" and "\<forall>x\<in>set (children s). 0 \<le> offsetWidth x"
    and "size_option_ok (slide_size (options s))"
  shows "0 \<le> resolve_size stage (raw_slide_size stage totalSize s)"
proof (cases "slide_size (options s)")
  case Auto
  show ?thesis
  proof (cases "children s")
    case Nil
    with Auto assms(1) show ?thesis by (simp add: raw_slide_size_def resolve_size_def)
  next
    case (Cons c cs)
    from assms(2) have "0 \<le> fst (pack stage 0 0 (children s))"
      by (intro pack_nonneg) simp_all
    with Auto Cons assms(1,2) show ?thesis
      by (auto simp: raw_slide_size_def resolve_size_def split: prod.splits)
  qed
next
  case (Pixels p)
  with assms(1,3) show ?thesis
    by (simp add: raw_slide_size_def resolve_size_def size_option_ok_def)
next
  case (Percent p)
  with assms(1,3) show ?thesis
    by (simp add: raw_slide_size_def resolve_size_def size_option_ok_def)
qed

lemma count_at_least_one: "0 \<le> c \<Longrightarrow> 1 \<le> (if z = (0::rat) \<or> c = 0 then 1 else (c::int))"
  by simp

lemma calculate_slides:
  assumes "0 \<le> stage" and "0 \<le> totalSize" and "\<forall>x\<in>set (children s). 0 \<le> offsetWidth x"
    and "size_option_ok (slide_size (options s))"
  shows "1 \<le> slides (calculate stage totalSize s)"
proof -
  let ?z = "resolve_size stage (raw_slide_size stage totalSize (getTotalSize s))"
  let ?c = "if slide_size (options s) = Auto \<and> contains_single (slide_mode (options s))
            then int (length (children s)) else \<lceil>totalSize / ?z\<rceil>"
  have z: "0 \<le> ?z" using assms by (intro raw_slide_size_nonneg) simp_all
  have "0 \<le> totalSize / ?z" using z assms(2) by simp
  then have "- 1 < totalSize / ?z" by linarith
  then have "0 \<le> \<lceil>totalSize / ?z\<rceil>" by simp
  then have c: "0 \<le> ?c" by simp
  have s: "slides (calculate stage totalSize s) = (if ?z = 0 \<or> ?c = 0 then 1 else ?c)"
    by (simp add: calculate_def Let_def)
  show ?thesis unfolding s using c by (rule count_at_least_one)
qed

lemma attached_in_range:
  assumes "0 \<le> stage" and "0 \<le> totalSize" and "\<forall>x\<in>set cs. 0 \<le> offsetWidth x"
    and "size_option_ok (slide_size opts)"
  shows "in_range (attached opts cs stage totalSize)"
proof -
  have "1 \<le> slides (calculate stage totalSize (new_carousel opts cs))"
    using assms by (intro calculate_slides) (simp_all add: new_carousel_def)
  then show ?thesis by (simp add: in_range_def attached_def new_carousel_def)
qed

lemma move_index_in_range:
  "1 \<le> slides s \<Longrightarrow> 0 \<le> move_index s d opts \<and> move_index s d opts \<le> slides s - 1"
  by (simp add: move_index_def Let_def)

lemma invoke_in_range [simp]: "in_range (invoke cb s) = in_range s"
  by (simp add: in_range_def)

lemma current_slide_move:
  "current_slide (move d opts cb s) = current_slide s
   \<or> current_slide (move d opts cb s) = move_index s d opts"
  by (simp add: move_def Let_def split: option.splits)

lemma move_in_range: "in_range s \<Longrightarrow> in_range (move d opts cb s)"
  using current_slide_move [of d opts cb s] move_index_in_range [of s d opts]
  by (auto simp: in_range_def)

lemma in_range_fields:
  "slides s' = slides s \<Longrightarrow> current_slide s' = current_slide s \<Longrightarrow> in_range s' = in_range s"
  by (simp add: in_range_def)

lemma in_range_update [simp]:
  "in_range (s\<lparr>moving := b\<rparr>) = in_range s"
  "in_range (s\<lparr>listeners := ls\<rparr>) = in_range s"
  "in_range (s\<lparr>timers := ts\<rparr>) = in_range s"
  "in_range (s\<lparr>transitioning := b\<rparr>) = in_range s"
  "in_range (s\<lparr>moved := ms\<rparr>) = in_range s"
  "in_range (s\<lparr>called := ks\<rparr>) = in_range s"
  "in_range (move_raw to b s) = in_range s"
  by (simp_all add: in_range_def)

lemma run_deferred_in_range: "in_range s \<Longrightarrow> in_range (run_deferred d s)"
  by (simp add: run_deferred_def Let_def move_in_range)

lemma fold_invoke_in_range [simp]: "in_range (fold invoke ls s) = in_range s"
  by (simp add: in_range_def)

lemma step_in_range: "in_range s \<Longrightarrow> in_range (step s i)"
proof (cases i)
  case (Move d opts cb)
  assume "in_range s"
  then show ?thesis using Move by (simp add: move_in_range)
next
  case Tick
  assume r: "in_range s"
  show ?thesis
  proof (cases "timers s")
    case Nil
    with r Tick show ?thesis by simp
  next
    case (Cons d ds)
    from r have "in_range (s\<lparr>timers := ds\<rparr>)" by simp
    then have "in_range (run_deferred d (s\<lparr>timers := ds\<rparr>))" by (rule run_deferred_in_range)
    with Tick Cons show ?thesis by simp
  qed
next
  case TransitionEnd
  assume "in_range s"
  then show ?thesis using TransitionEnd by simp
qed

lemma run_in_range: "in_range s \<Longrightarrow> in_range (run s ins)"
  by (induction ins arbitrary: s) (simp_all add: step_in_range)

lemma move_keeps_slide:
  "moving s \<or> move_target s (move_index s d opts) = None \<Longrightarrow>
   current_slide (move d opts cb s) = current_slide s"
  by (auto simp: move_def Let_def)

text \<open>
  C1. Take a stage width and a total size that are not negative, children whose widths are
  not negative, and a configured slide size that is not negative. In every state that any
  calls of \<^verbatim>\<open>move\<close> (with any direction and event tag), timer runs and transition-finished
  signals lead to from the attached carousel, the slide count is at least 1 and the current
  slide is between 0 and the slide count minus 1. The target index of a further move is the
  current slide plus the direction, clamped into that range (or 0, when the timer loops from
  the last slide), so it lies in the range too. A call of \<^verbatim>\<open>move\<close> that is neither
  dropped nor aborted commits that target index as the current slide, and a call that is
  dropped or aborted leaves the current slide as it is.
\<close>

theorem slide_index_invariant:
  "0 \<le> stage \<and> 0 \<le> totalSize \<and> (\<forall>c\<in>set cs. 0 \<le> offsetWidth c)
   \<and> size_option_ok (slide_size opts) \<longrightarrow>
   1 \<le> slides (run (attached opts cs stage totalSize) ins)
   \<and> 0 \<le> current_slide (run (attached opts cs stage totalSize) ins)
   \<and> current_slide (run (attached opts cs stage totalSize) ins)
       \<le> slides (run (attached opts cs stage totalSize) ins) - 1
   \<and> move_index (run (attached opts cs stage totalSize) ins) direction mopts
       = (if loop (options (run (attached opts cs stage totalSize) ins)) \<and> direction = 1
             \<and> event mopts = Some ''timer''
             \<and> current_slide (run (attached opts cs stage totalSize) ins)
                 = slides (run (attached opts cs stage totalSize) ins) - 1
          then 0
          else min (max (current_slide (run (attached opts cs stage totalSize) ins) + direction) 0)
                 (slides (run (attached opts cs stage totalSize) ins) - 1))
   \<and> 0 \<le> move_index (run (attached opts cs stage totalSize) ins) direction mopts
   \<and> move_index (run (attached opts cs stage totalSize) ins) direction mopts
       \<le> slides (run (attached opts cs stage totalSize) ins) - 1
   \<and> (\<not> moving (run (attached opts cs stage totalSize) ins)
        \<and> move_target (run (attached opts cs stage totalSize) ins)
             (move_index (run (attached opts cs stage totalSize) ins) direction mopts) \<noteq> None
        \<longrightarrow> current_slide (step (run (attached opts cs stage totalSize) ins)
                             (Move direction mopts cb))
             = move_index (run (attached opts cs stage totalSize) ins) direction mopts)
   \<and> (moving (run (attached opts cs stage totalSize) ins)
        \<or> move_target (run (attached opts cs stage totalSize) ins)
             (move_index (run (attached opts cs stage totalSize) ins) direction mopts) = None
        \<longrightarrow> current_slide (step (run (attached opts cs stage totalSize) ins)
                             (Move direction mopts cb))
             = current_slide (run (attached opts cs stage totalSize) ins))"
proof -
  let ?s = "run (attached opts cs stage totalSize) ins"
  let ?c = "case cb of None \<Rightarrow> NoCallback | Some k \<Rightarrow> User k"
  have i: "move_index ?s direction mopts
       = (if loop (options ?s) \<and> direction = 1 \<and> event mopts = Some ''timer''
             \<and> current_slide ?s = slides ?s - 1
          then 0 else min (max (current_slide ?s + direction) 0) (slides ?s - 1))"
    by (rule move_index_clamp)
  have c: "\<not> moving ?s \<and> move_target ?s (move_index ?s direction mopts) \<noteq> None
        \<longrightarrow> current_slide (step ?s (Move direction mopts cb)) = move_index ?s direction mopts"
    using move_commits [of ?s direction mopts _ ?c] by auto
  have k: "moving ?s \<or> move_target ?s (move_index ?s direction mopts) = None
        \<longrightarrow> current_slide (step ?s (Move direction mopts cb)) = current_slide ?s"
    using move_keeps_slide [of ?s direction mopts ?c] by auto
  have "1 \<le> slides ?s \<and> 0 \<le> current_slide ?s \<and> current_slide ?s \<le> slides ?s - 1
      \<and> 0 \<le> move_index ?s direction mopts \<and> move_index ?s direction mopts \<le> slides ?s - 1"
    if h: "0 \<le> stage" "0 \<le> totalSize" "\<forall>c\<in>set cs. 0 \<le> offsetWidth c"
      "size_option_ok (slide_size opts)"
  proof -
    from h have "in_range (attached opts cs stage totalSize)" by (rule attached_in_range)
    then have r: "in_range ?s" by (rule run_in_range)
    then have "1 \<le> slides ?s" by (simp add: in_range_def)
    from move_index_in_range [OF this, of direction mopts] r show ?thesis
      by (simp add: in_range_def)
  qed
  with i c k show ?thesis by blast
qed

theorem slide_index_invariant_witness:
  "(0::rat) \<le> 300 \<and> (0::rat) \<le> 900 \<and> size_option_ok (slide_size three_options)
   \<and> slides (run (attached three_options three_children 300 900)
        [Move 1 no_opts None, Tick, TransitionEnd]) = 3
   \<and> current_slide (run (attached three_options three_children 300 900)
        [Move 1 no_opts None, Tick, TransitionEnd]) = 1
   \<and> move_index (run (attached three_options three_children 300 900)
        [Move 1 no_opts None, Tick, TransitionEnd]) 5 no_opts = 2
   \<and> current_slide (step (run (attached three_options three_children 300 900)
        [Move 1 no_opts None, Tick, TransitionEnd]) (Move 5 no_opts None)) = 2"
proof -
  let ?s = "run (attached three_options three_children 300 900)
        [Move 1 no_opts None, Tick, TransitionEnd]"
  have w: "\<forall>c\<in>set three_children. 0 \<le> offsetWidth c" by (simp add: three_children_def)
  have z: "size_option_ok (slide_size three_options)" by code_simp
  have f: "slides ?s = 3" "current_slide ?s = 1" "\<not> moving ?s" "event no_opts = None"
    by code_simp+
  have t: "move_target ?s 2 \<noteq> None" by code_simp
  note th = slide_index_invariant [of 300 900 three_children three_options
      "[Move 1 no_opts None, Tick, TransitionEnd]" 5 no_opts None]
  from th w z f have i: "move_index ?s 5 no_opts = 2"
    by (simp del: run_Cons run_Nil run_append step.simps)
  from th w z f t i
  have "current_slide (step ?s (Move 5 no_opts None)) = 2"
    by (simp del: run_Cons run_Nil run_append step.simps)
  with z f i show ?thesis by (simp del: run_Cons run_Nil run_append step.simps)
qed

subsection \<open>Sticky ends\<close>

lemma sticky_clamp_min_max:
  "slide_ends_alignment (options s) = Sticky \<Longrightarrow>
   sticky_clamp s t = min (max t 0) (total_size s - stage_size s)"
  by (simp add: sticky_clamp_def Let_def min_def max_def)

lemma sticky_clamp_bounds:
  "slide_ends_alignment (options s) = Sticky \<Longrightarrow> stage_size s \<le> total_size s \<Longrightarrow>
   0 \<le> sticky_clamp s t \<and> sticky_clamp s t \<le> total_size s - stage_size s"
  by (simp add: sticky_clamp_min_max min_def max_def)

lemma timers_move:
  "timers (move d opts cb s) = timers s
   \<or> (\<exists>t. timers (move d opts cb s) =
         timers s @ [\<lparr>d_target = sticky_clamp s t, d_thisSlide = move_index s d opts,
                      d_direction = d, d_opts = opts, d_callback = cb\<rparr>])"
  by (auto simp: move_def Let_def split: option.splits)

lemma within_ends_invoke [simp]: "within_ends (invoke cb s) = within_ends s"
  by (simp add: within_ends_def split: option.splits)

lemma within_ends_fold_invoke [simp]: "within_ends (fold invoke ls s) = within_ends s"
  by (simp add: within_ends_def split: option.splits)

lemma within_ends_update [simp]:
  "within_ends (s\<lparr>moving := b\<rparr>) = within_ends s"
  "within_ends (s\<lparr>moved := ms\<rparr>) = within_ends s"
  "within_ends (s\<lparr>called := ks\<rparr>) = within_ends s"
  "within_ends (s\<lparr>listeners := ls\<rparr>) = within_ends s"
  "within_ends (s\<lparr>transitioning := b\<rparr>) = within_ends s"
  by (simp_all add: within_ends_def split: option.splits)

lemma within_ends_move:
  assumes "slide_ends_alignment (options s) = Sticky" and "stage_size s \<le> total_size s"
    and "within_ends s"
  shows "within_ends (move d opts cb s)"
proof -
  from timers_move [of d opts cb s] show ?thesis
  proof
    assume "timers (move d opts cb s) = timers s"
    with assms(3) show ?thesis by (simp add: within_ends_def split: option.splits)
  next
    assume "\<exists>t. timers (move d opts cb s) =
         timers s @ [\<lparr>d_target = sticky_clamp s t, d_thisSlide = move_index s d opts,
                      d_direction = d, d_opts = opts, d_callback = cb\<rparr>]"
    then obtain t where t: "timers (move d opts cb s) =
         timers s @ [\<lparr>d_target = sticky_clamp s t, d_thisSlide = move_index s d opts,
                      d_direction = d, d_opts = opts, d_callback = cb\<rparr>]" by blast
    from sticky_clamp_bounds [OF assms(1,2), of t] assms(3) show ?thesis
      by (simp add: within_ends_def t split: option.splits)
  qed
qed

lemma within_ends_move_raw:
  "within_ends s \<Longrightarrow> 0 \<le> t \<Longrightarrow> t \<le> total_size s - stage_size s \<Longrightarrow>
   within_ends (move_raw (- t) True s)"
  by (simp add: within_ends_def move_raw_def Let_def split: option.splits)

lemma within_ends_run_deferred:
  assumes "slide_ends_alignment (options s) = Sticky" and "stage_size s \<le> total_size s"
    and "within_ends s" and "0 \<le> d_target d" and "d_target d \<le> total_size s - stage_size s"
  shows "within_ends (run_deferred d s)"
proof -
  have a: "within_ends (move_raw (- d_target d) True (s\<lparr>listeners := ls, transitioning := b\<rparr>))"
    for ls b
    using assms(3-5) by (intro within_ends_move_raw) simp_all
  have b: "within_ends (move_raw (- d_target d) True s)"
    using assms(3-5) by (intro within_ends_move_raw) simp_all
  have c: "within_ends (move e opts cb (s\<lparr>moving := False\<rparr>))" for e opts cb
    using assms(1-3) by (intro within_ends_move) simp_all
  from a b c assms(3) show ?thesis
    by (simp add: run_deferred_def Let_def)
qed

lemma within_ends_step:
  assumes "slide_ends_alignment (options s) = Sticky" and "stage_size s \<le> total_size s"
    and "within_ends s"
  shows "within_ends (step s i)"
proof (cases i)
  case (Move d opts cb)
  with assms show ?thesis by (simp add: within_ends_move)
next
  case Tick
  show ?thesis
  proof (cases "timers s")
    case Nil
    with assms Tick show ?thesis by simp
  next
    case (Cons d ds)
    from assms(3) Cons have w: "within_ends (s\<lparr>timers := ds\<rparr>)"
      and d: "0 \<le> d_target d" "d_target d \<le> total_size s - stage_size s"
      by (simp_all add: within_ends_def split: option.splits)
    have "within_ends (run_deferred d (s\<lparr>timers := ds\<rparr>))"
      using assms(1,2) w d by (intro within_ends_run_deferred) simp_all
    with Tick Cons show ?thesis by simp
  qed
next
  case TransitionEnd
  with assms show ?thesis by simp
qed

lemma within_ends_run:
  "slide_ends_alignment (options s) = Sticky \<Longrightarrow> stage_size s \<le> total_size s \<Longrightarrow>
   within_ends s \<Longrightarrow> within_ends (run s ins)"
proof (induction ins arbitrary: s)
  case Nil
  then show ?case by simp
next
  case (Cons i ins)
  from Cons.prems have "within_ends (step s i)" by (rule within_ends_step)
  with Cons.prems(1,2) have "within_ends (run (step s i) ins)"
    by (intro Cons.IH) simp_all
  then show ?case by simp
qed

lemma within_ends_attached:
  "stage \<le> totalSize \<Longrightarrow> within_ends (attached opts cs stage totalSize)"
  by (simp add: within_ends_def attached_def calculate_def getTotalSize_def move_raw_def
      getCurrentOffset_def new_carousel_def Let_def split: option.splits)

lemma move_schedules:
  "\<not> moving s \<Longrightarrow> move_target s (move_index s d opts) = Some t \<Longrightarrow>
   timers (move d opts cb s) =
     timers s @ [\<lparr>d_target = sticky_clamp s t, d_thisSlide = move_index s d opts,
                  d_direction = d, d_opts = opts, d_callback = cb\<rparr>]"
  by (simp add: move_def Let_def)

lemma sticky_clamp_wide_stage:
  "slide_ends_alignment (options s) = Sticky \<Longrightarrow> total_size s < stage_size s \<Longrightarrow>
   sticky_clamp s t = total_size s - stage_size s"
  by (simp add: sticky_clamp_def Let_def)

lemma wide_stage_facts:
  "slide_ends_alignment three_options = Sticky"
  "slides (attached three_options [\<lparr>offsetLeft = 0, offsetWidth = 300\<rparr>] 302 300) = 1"
  "map d_target (timers (step (attached three_options [\<lparr>offsetLeft = 0, offsetWidth = 300\<rparr>] 302 300)
      (Move 0 no_opts None))) = [- 2]"
  "translateX (run (attached three_options [\<lparr>offsetLeft = 0, offsetWidth = 300\<rparr>] 302 300)
      [Move 0 no_opts None, Tick]) = Some 2"
  "currentOffset (run (attached three_options [\<lparr>offsetLeft = 0, offsetWidth = 300\<rparr>] 302 300)
      [Move 0 no_opts None, Tick]) = Some 2"
  by code_simp+

lemma three_sticky_facts:
  "map d_target (timers (step (attached three_options three_children 300 900)
      (Move 2 no_opts None))) = [600]"
  "currentOffset three_at_last = Some (- 600)"
  "translateX three_at_last = Some (- 600)"
  by code_simp+

text \<open>
  C4, as amended. With sticky ends, the target that \<^verbatim>\<open>move\<close> hands to its delayed
  function is the target of the slide brought up to 0 and then down to the total size less the
  stage size. When the stage is not wider than the total size, this is a clamp into the
  interval from 0 to the total size less the stage size: in every state that calls of
  \<^verbatim>\<open>move\<close>, timer runs and transition-finished signals lead to from the attached
  carousel, every pending target lies in that interval, and the offset recorded and the
  offset rendered lie between the negated bound and 0. (When the stage is wider than the total
  size, the target is always the total size less the stage size, which is negative.) With a
  stage of 300 and a total size of 900 the move to the last slide has the target 600 and
  renders the offset -600.
\<close>

theorem sticky_target_clamped:
  "(slide_ends_alignment (options s) = Sticky \<longrightarrow>
      sticky_clamp s t = min (max t 0) (total_size s - stage_size s))
   \<and> (slide_ends_alignment (options s) = Sticky \<and> total_size s < stage_size s \<longrightarrow>
        sticky_clamp s t = total_size s - stage_size s)
   \<and> (\<not> moving s \<and> move_target s (move_index s direction mopts) = Some t \<longrightarrow>
        timers (move direction mopts cb s) =
          timers s @ [\<lparr>d_target = sticky_clamp s t, d_thisSlide = move_index s direction mopts,
                       d_direction = direction, d_opts = mopts, d_callback = cb\<rparr>])
   \<and> (slide_ends_alignment opts = Sticky \<and> stage \<le> totalSize \<longrightarrow>
        (\<forall>d\<in>set (timers (run (attached opts cs stage totalSize) ins)).
            0 \<le> d_target d \<and> d_target d \<le> totalSize - stage)
        \<and> (\<forall>c. currentOffset (run (attached opts cs stage totalSize) ins) = Some c \<longrightarrow>
              - (totalSize - stage) \<le> c \<and> c \<le> 0)
        \<and> (\<forall>c. translateX (run (attached opts cs stage totalSize) ins) = Some c \<longrightarrow>
              - (totalSize - stage) \<le> c \<and> c \<le> 0))
   \<and> map d_target (timers (step (attached three_options three_children 300 900)
        (Move 2 no_opts None))) = [600]
   \<and> currentOffset three_at_last = Some (- 600)
   \<and> translateX three_at_last = Some (- 600)"
proof -
  let ?s = "run (attached opts cs stage totalSize) ins"
  have a: "slide_ends_alignment (options s) = Sticky \<longrightarrow>
      sticky_clamp s t = min (max t 0) (total_size s - stage_size s)"
    by (simp add: sticky_clamp_min_max)
  have w: "slide_ends_alignment (options s) = Sticky \<and> total_size s < stage_size s \<longrightarrow>
        sticky_clamp s t = total_size s - stage_size s"
    by (simp add: sticky_clamp_wide_stage)
  have b: "\<not> moving s \<and> move_target s (move_index s direction mopts) = Some t \<longrightarrow>
        timers (move direction mopts cb s) =
          timers s @ [\<lparr>d_target = sticky_clamp s t, d_thisSlide = move_index s direction mopts,
                       d_direction = direction, d_opts = mopts, d_callback = cb\<rparr>]"
    by (simp add: move_schedules)
  have c: "(\<forall>d\<in>set (timers ?s). 0 \<le> d_target d \<and> d_target d \<le> totalSize - stage)
        \<and> (\<forall>c. currentOffset ?s = Some c \<longrightarrow> - (totalSize - stage) \<le> c \<and> c \<le> 0)
        \<and> (\<forall>c. translateX ?s = Some c \<longrightarrow> - (totalSize - stage) \<le> c \<and> c \<le> 0)"
    if h: "slide_ends_alignment opts = Sticky" "stage \<le> totalSize"
  proof -
    have o: "slide_ends_alignment (options (attached opts cs stage totalSize)) = Sticky"
      using h(1) by (simp add: attached_def new_carousel_def)
    have z: "stage_size (attached opts cs stage totalSize) = stage"
      "total_size (attached opts cs stage totalSize) = totalSize"
      by (simp_all add: attached_def)
    have "within_ends (attached opts cs stage totalSize)"
      using h(2) by (rule within_ends_attached)
    with o h(2) z have "within_ends ?s" by (intro within_ends_run) simp_all
    then show ?thesis by (simp add: within_ends_def z split: option.splits)
  qed
  from a w b c three_sticky_facts show ?thesis by blast
qed

theorem sticky_target_clamped_witness:
  "slide_ends_alignment three_options = Sticky \<and> (300::rat) \<le> 900
   \<and> \<not> moving (attached three_options three_children 300 900)
   \<and> move_target (attached three_options three_children 300 900)
        (move_index (attached three_options three_children 300 900) 5 no_opts) = Some 600
   \<and> sticky_clamp (attached three_options three_children 300 900) 1200 = 600
   \<and> currentOffset (run (attached three_options three_children 300 900)
        [Move 5 no_opts None, Tick]) = Some (- 600)
   \<and> - (900 - 300) \<le> (- 600::rat) \<and> (- 600::rat) \<le> 0"
proof -
  let ?a = "attached three_options three_children 300 900"
  have f: "slide_ends_alignment three_options = Sticky"
    "slide_ends_alignment (options ?a) = Sticky" "\<not> moving ?a"
    "move_target ?a (move_index ?a 5 no_opts) = Some 600"
    "total_size ?a = 900" "stage_size ?a = 300"
    "currentOffset (run ?a [Move 5 no_opts None, Tick]) = Some (- 600)"
    by code_simp+
  from sticky_target_clamped [of ?a 1200 5 no_opts NoCallback three_options 300 900 three_children
      "[Move 5 no_opts None, Tick]"] f
  show ?thesis by (simp del: run_Cons run_Nil run_append)
qed

text \<open>
  C4, as stated, fails. With sticky ends, one child of 300, a stage measured at 302 and a
  total size measured at 300, the move to slide 0 has the target -2, below 0, and the delayed
  function renders the offset 2, above 0.
\<close>

theorem sticky_wide_stage_counterexample:
  "slide_ends_alignment three_options = Sticky
   \<and> map d_target (timers (step (attached three_options [\<lparr>offsetLeft = 0, offsetWidth = 300\<rparr>] 302 300)
        (Move 0 no_opts None))) = [- 2]
   \<and> \<not> (0::rat) \<le> - 2
   \<and> translateX (run (attached three_options [\<lparr>offsetLeft = 0, offsetWidth = 300\<rparr>] 302 300)
        [Move 0 no_opts None, Tick]) = Some 2
   \<and> currentOffset (run (attached three_options [\<lparr>offsetLeft = 0, offsetWidth = 300\<rparr>] 302 300)
        [Move 0 no_opts None, Tick]) = Some 2
   \<and> \<not> (2::rat) \<le> 0"
  using wide_stage_facts by (simp del: run_Cons run_Nil run_append step.simps)

subsection \<open>A move by 0 at rest\<close>

lemma move_index_zero:
  "in_range s \<Longrightarrow> move_index s 0 opts = current_slide s"
  by (simp add: move_index_def Let_def in_range_def)

lemma getCurrentOffset_cong:
  "children s' = children s \<Longrightarrow> translateX s' = translateX s \<Longrightarrow>
   currentOffset s' = currentOffset s \<Longrightarrow> getCurrentOffset raw s' = getCurrentOffset raw s"
  unfolding getCurrentOffset_def Let_def by (simp only:)

lemma move_zero_at_rest:
  assumes rest: "at_rest s" and range: "in_range s"
    and target: "move_target s (current_slide s) = Some t"
    and offset: "getCurrentOffset True s = - sticky_clamp s t"
  shows "moved (run s [Move 0 opts cb, Tick]) = moved s @ [current_slide s]"
    and "current_slide (run s [Move 0 opts cb, Tick]) = current_slide s"
    and "currentOffset (run s [Move 0 opts cb, Tick]) = currentOffset s"
    and "translateX (run s [Move 0 opts cb, Tick]) = translateX s"
    and "called (run s [Move 0 opts cb, Tick]) = called s @ given (Move 0 opts cb)"
    and "at_rest (run s [Move 0 opts cb, Tick])"
proof -
  let ?c = "case cb of None \<Rightarrow> NoCallback | Some k \<Rightarrow> User k"
  let ?d = "\<lparr>d_target = sticky_clamp s t, d_thisSlide = current_slide s,
             d_direction = 0, d_opts = opts, d_callback = ?c\<rparr>"
  let ?s1 = "move 0 opts ?c s"
  from rest have nm: "\<not> moving s" and nt: "timers s = []" and nl: "listeners s = []"
    by (simp_all add: at_rest_def)
  have i: "move_index s 0 opts = current_slide s" using range by (rule move_index_zero)
  from target i have tg: "move_target s (move_index s 0 opts) = Some t" by simp
  have t1: "timers ?s1 = [?d]"
    using move_schedules [OF nm tg, of ?c] nt i by simp
  have c1: "current_slide ?s1 = current_slide s"
    using move_commits [OF nm tg, of ?c] i by simp
  have l1: "listeners ?s1 = []" "moved ?s1 = moved s" "called ?s1 = called s"
    using nm tg nl by (simp_all add: move_def Let_def)
  have "getCurrentOffset True (?s1\<lparr>timers := []\<rparr>) = getCurrentOffset True s"
    by (rule getCurrentOffset_cong) simp_all
  with offset have o1: "getCurrentOffset True (?s1\<lparr>timers := []\<rparr>) = - d_target ?d"
    by simp
  let ?s2 = "run_deferred ?d (?s1\<lparr>timers := []\<rparr>)"
  have r: "run s [Move 0 opts cb, Tick] = ?s2"
    by (simp add: t1)
  have s2: "?s2 = invoke (OnTransitionEnd (current_slide s) ?c) (?s1\<lparr>timers := []\<rparr>)"
    using o1 by (simp add: run_deferred_def Let_def)
  have u: "users ?c = given (Move 0 opts cb)" by (cases cb) simp_all
  have f: "fires ?c = []" by (cases cb) simp_all
  show "moved (run s [Move 0 opts cb, Tick]) = moved s @ [current_slide s]"
    unfolding r s2 by (simp add: l1 f)
  show "current_slide (run s [Move 0 opts cb, Tick]) = current_slide s"
    unfolding r s2 by (simp add: c1)
  show "currentOffset (run s [Move 0 opts cb, Tick]) = currentOffset s"
    unfolding r s2 by simp
  show "translateX (run s [Move 0 opts cb, Tick]) = translateX s"
    unfolding r s2 by simp
  show "called (run s [Move 0 opts cb, Tick]) = called s @ given (Move 0 opts cb)"
    unfolding r s2 by (simp add: l1 u)
  show "at_rest (run s [Move 0 opts cb, Tick])"
    unfolding r s2 by (simp add: at_rest_def l1)
qed

text \<open>
  C7. Take a carousel at rest (no move in flight, nothing pending) whose current slide is
  among the slides and has a target, and whose raw offset is the negation of that target as
  committed (that is, after the sticky clamp). A call of \<^verbatim>\<open>move(0)\<close>, once its delayed
  function has run, has fired one \<^verbatim>\<open>moved\<close> event that carries the current slide, has
  left the current slide, the recorded offset, the rendered transform and so the raw offset
  unchanged, has called the caller's callback, and leaves the carousel at rest.
\<close>

theorem move_zero_is_idempotent:
  "at_rest s \<and> in_range s \<and> move_target s (current_slide s) = Some t
   \<and> getCurrentOffset True s = - sticky_clamp s t \<longrightarrow>
   moved (run s [Move 0 opts cb, Tick]) = moved s @ [current_slide s]
   \<and> current_slide (run s [Move 0 opts cb, Tick]) = current_slide s
   \<and> currentOffset (run s [Move 0 opts cb, Tick]) = currentOffset s
   \<and> translateX (run s [Move 0 opts cb, Tick]) = translateX s
   \<and> getCurrentOffset True (run s [Move 0 opts cb, Tick]) = getCurrentOffset True s
   \<and> called (run s [Move 0 opts cb, Tick]) = called s @ given (Move 0 opts cb)
   \<and> at_rest (run s [Move 0 opts cb, Tick])"
proof -
  have "moved (run s [Move 0 opts cb, Tick]) = moved s @ [current_slide s]
   \<and> current_slide (run s [Move 0 opts cb, Tick]) = current_slide s
   \<and> currentOffset (run s [Move 0 opts cb, Tick]) = currentOffset s
   \<and> translateX (run s [Move 0 opts cb, Tick]) = translateX s
   \<and> getCurrentOffset True (run s [Move 0 opts cb, Tick]) = getCurrentOffset True s
   \<and> called (run s [Move 0 opts cb, Tick]) = called s @ given (Move 0 opts cb)
   \<and> at_rest (run s [Move 0 opts cb, Tick])"
    if h: "at_rest s" "in_range s" "move_target s (current_slide s) = Some t"
      "getCurrentOffset True s = - sticky_clamp s t"
  proof -
    note m = move_zero_at_rest [OF h, of opts cb]
    have g: "getCurrentOffset True (run s [Move 0 opts cb, Tick]) = getCurrentOffset True s"
      using m(3,4) by (intro getCurrentOffset_cong) (simp_all del: run_Cons run_Nil)
    from m g show ?thesis by blast
  qed
  then show ?thesis by blast
qed

theorem move_zero_is_idempotent_witness:
  "at_rest three_at_last \<and> in_range three_at_last
   \<and> move_target three_at_last (current_slide three_at_last) = Some 600
   \<and> getCurrentOffset True three_at_last = - sticky_clamp three_at_last 600
   \<and> moved three_at_last = [2]
   \<and> moved (run three_at_last [Move 0 no_opts (Some 4), Tick]) = [2, 2]
   \<and> current_slide (run three_at_last [Move 0 no_opts (Some 4), Tick]) = 2
   \<and> called (run three_at_last [Move 0 no_opts (Some 4), Tick]) = [4]"
proof -
  have f: "at_rest three_at_last" "in_range three_at_last"
    "move_target three_at_last (current_slide three_at_last) = Some 600"
    "getCurrentOffset True three_at_last = - sticky_clamp three_at_last 600"
    "moved three_at_last = [2]" "current_slide three_at_last = 2" "called three_at_last = []"
    by code_simp+
  from move_zero_is_idempotent [of three_at_last 600 no_opts "Some 4"] f
  show ?thesis by (simp del: run_Cons run_Nil run_append)
qed

subsection \<open>Pending work and the callbacks owed\<close>

lemma pending_ok_iff:
  "pending_ok s \<longleftrightarrow>
     (timers s = [] \<and> listeners s = [] \<and> \<not> moving s)
     \<or> (\<exists>d. timers s = [d] \<and> listeners s = [] \<and> moving s \<and> current_slide s = d_thisSlide d)
     \<or> (\<exists>t cb. timers s = [] \<and> listeners s = [OnTransitionEnd t cb] \<and> moving s
           \<and> transitionend (options s))"
  by (auto simp: pending_ok_def split: list.splits callback.splits)

lemma pending_ok_idle: "timers s = [] \<Longrightarrow> listeners s = [] \<Longrightarrow> \<not> moving s \<Longrightarrow> pending_ok s"
  by (simp add: pending_ok_iff)

lemma pending_ok_timer:
  "timers s = [d] \<Longrightarrow> listeners s = [] \<Longrightarrow> moving s \<Longrightarrow> current_slide s = d_thisSlide d \<Longrightarrow>
   pending_ok s"
  by (simp add: pending_ok_iff)

lemma pending_ok_listener:
  "timers s = [] \<Longrightarrow> listeners s = [OnTransitionEnd t cb] \<Longrightarrow> moving s \<Longrightarrow>
   transitionend (options s) \<Longrightarrow> pending_ok s"
  by (simp add: pending_ok_iff)

text \<open>The sum of what has been called and what is owed.\<close>

lemma owed_idle: "timers s = [] \<Longrightarrow> listeners s = [] \<Longrightarrow> owed s = []"
  by (simp add: owed_def)

lemma move_idle:
  assumes "timers s = []" and "listeners s = []" and "\<not> moving s"
  shows "pending_ok (move d opts cb s)"
    and "mset (called (move d opts cb s)) + mset (owed (move d opts cb s))
           = mset (called s) + mset (users cb)"
proof -
  show "pending_ok (move d opts cb s)"
  proof (cases "move_target s (move_index s d opts)")
    case None
    with assms show ?thesis
      by (intro pending_ok_idle) (simp_all add: move_def Let_def)
  next
    case (Some t)
    with assms show ?thesis
      by (intro pending_ok_timer [where d = "\<lparr>d_target = sticky_clamp s t,
            d_thisSlide = move_index s d opts, d_direction = d, d_opts = opts,
            d_callback = cb\<rparr>"]) (simp_all add: move_def Let_def)
  qed
  show "mset (called (move d opts cb s)) + mset (owed (move d opts cb s))
           = mset (called s) + mset (users cb)"
  proof (cases "move_target s (move_index s d opts)")
    case None
    with assms show ?thesis
      by (simp add: move_def Let_def owed_def)
  next
    case (Some t)
    with assms show ?thesis
      by (simp add: move_def Let_def owed_def)
  qed
qed

lemma move_busy:
  assumes "moving s" and "fires cb = []"
  shows "timers (move d opts cb s) = timers s" and "listeners (move d opts cb s) = listeners s"
    and "moving (move d opts cb s)" and "current_slide (move d opts cb s) = current_slide s"
    and "called (move d opts cb s) = called s @ users cb"
proof -
  have l: "listeners (invoke cb s) = listeners s" using assms(2) by (cases cb) simp_all
  from assms l show "timers (move d opts cb s) = timers s"
    and "listeners (move d opts cb s) = listeners s"
    and "moving (move d opts cb s)" and "current_slide (move d opts cb s) = current_slide s"
    and "called (move d opts cb s) = called s @ users cb"
    by (simp_all add: move_def)
qed

lemma pending_ok_fields:
  "timers s' = timers s \<Longrightarrow> listeners s' = listeners s \<Longrightarrow> moving s' = moving s \<Longrightarrow>
   current_slide s' = current_slide s \<Longrightarrow> options s' = options s \<Longrightarrow>
   pending_ok s' = pending_ok s"
  by (simp add: pending_ok_iff)

lemma step_move_ok:
  assumes "pending_ok s"
  shows "pending_ok (step s (Move d opts cb))"
    and "mset (called (step s (Move d opts cb))) + mset (owed (step s (Move d opts cb)))
           = mset (called s) + mset (owed s) + mset (given (Move d opts cb))"
proof -
  let ?c = "case cb of None \<Rightarrow> NoCallback | Some k \<Rightarrow> User k"
  have f: "fires ?c = []" by (cases cb) simp_all
  have u: "users ?c = given (Move d opts cb)" by (cases cb) simp_all
  show "pending_ok (step s (Move d opts cb))"
  proof (cases "moving s")
    case True
    note b = move_busy [OF True f, of d opts]
    have "pending_ok (move d opts ?c s) = pending_ok s"
      using b True by (intro pending_ok_fields) simp_all
    with assms show ?thesis by simp
  next
    case False
    with assms have "timers s = []" "listeners s = []" by (auto simp: pending_ok_iff)
    from move_idle(1) [OF this False] show ?thesis by simp
  qed
  show "mset (called (step s (Move d opts cb))) + mset (owed (step s (Move d opts cb)))
           = mset (called s) + mset (owed s) + mset (given (Move d opts cb))"
  proof (cases "moving s")
    case True
    note b = move_busy [OF True f, of d opts]
    have "owed (move d opts ?c s) = owed s" using b by (simp add: owed_def)
    with b(5) u show ?thesis by simp
  next
    case False
    with assms have e: "timers s = []" "listeners s = []" by (auto simp: pending_ok_iff)
    from move_idle(2) [OF e False, of d opts ?c] owed_idle [OF e] u show ?thesis by simp
  qed
qed

lemma invoke_handler_idle:
  assumes "timers s = []" and "listeners s = []"
  shows "timers (invoke (OnTransitionEnd t cb) s) = []"
    and "listeners (invoke (OnTransitionEnd t cb) s) = []"
    and "\<not> moving (invoke (OnTransitionEnd t cb) s)"
    and "called (invoke (OnTransitionEnd t cb) s) = called s @ users cb"
  using assms by simp_all

lemma run_deferred_ok:
  assumes t: "timers s = []" and l: "listeners s = []" and m: "moving s"
  shows "pending_ok (run_deferred d s)"
    and "mset (called (run_deferred d s)) + mset (owed (run_deferred d s))
           = mset (called s) + mset (users (d_callback d))"
proof -
  let ?h = "OnTransitionEnd (d_thisSlide d) (d_callback d)"
  let ?recur = "slide_ends_alignment (options s) = Sticky
                 \<and> contains_single (slide_mode (options s))
                 \<and> d_direction d \<noteq> 0 \<and> d_thisSlide d > 0 \<and> d_thisSlide d < slides s - 1"
  consider (listen) "getCurrentOffset True s \<noteq> - d_target d" "transitionend (options s)"
    | (sync) "getCurrentOffset True s \<noteq> - d_target d" "\<not> transitionend (options s)"
    | (recur) "getCurrentOffset True s = - d_target d" "?recur"
    | (noop) "getCurrentOffset True s = - d_target d" "\<not> ?recur"
    by blast
  then have "pending_ok (run_deferred d s)
    \<and> mset (called (run_deferred d s)) + mset (owed (run_deferred d s))
           = mset (called s) + mset (users (d_callback d))"
  proof cases
    case listen
    let ?r = "move_raw (- d_target d) True (s\<lparr>listeners := listeners s @ [?h], transitioning := True\<rparr>)"
    from listen have r: "run_deferred d s = ?r" by (simp add: run_deferred_def Let_def)
    have p: "pending_ok ?r"
      using t l m listen(2)
      by (intro pending_ok_listener [where t = "d_thisSlide d" and cb = "d_callback d"]) simp_all
    have a: "called ?r = called s" "owed ?r = users (d_callback d)"
      using t l by (simp_all add: owed_def)
    from p a show ?thesis unfolding r by simp
  next
    case sync
    let ?r = "invoke ?h (move_raw (- d_target d) True s)"
    from sync have r: "run_deferred d s = ?r" by (simp add: run_deferred_def Let_def)
    have e: "timers (move_raw (- d_target d) True s) = []"
      "listeners (move_raw (- d_target d) True s) = []"
      using t l by simp_all
    note i = invoke_handler_idle [OF e, of "d_thisSlide d" "d_callback d"]
    have p: "pending_ok ?r" using i(1-3) by (rule pending_ok_idle)
    have o: "owed ?r = []" using i(1,2) by (rule owed_idle)
    from p o i(4) show ?thesis unfolding r by simp
  next
    case recur
    let ?r = "move (if d_direction d > 0 then 1 else - 1) (d_opts d) ?h (s\<lparr>moving := False\<rparr>)"
    from recur have r: "run_deferred d s = ?r" by (simp add: run_deferred_def Let_def)
    have e: "timers (s\<lparr>moving := False\<rparr>) = []" "listeners (s\<lparr>moving := False\<rparr>) = []"
      "\<not> moving (s\<lparr>moving := False\<rparr>)"
      using t l by simp_all
    note i = move_idle [OF e, of "if d_direction d > 0 then 1 else - 1" "d_opts d" ?h]
    from i show ?thesis unfolding r by simp
  next
    case noop
    let ?r = "invoke ?h s"
    from noop have r: "run_deferred d s = ?r" by (auto simp: run_deferred_def Let_def)
    note i = invoke_handler_idle [OF t l, of "d_thisSlide d" "d_callback d"]
    have p: "pending_ok ?r" using i(1-3) by (rule pending_ok_idle)
    have o: "owed ?r = []" using i(1,2) by (rule owed_idle)
    from p o i(4) show ?thesis unfolding r by simp
  qed
  then show "pending_ok (run_deferred d s)"
    and "mset (called (run_deferred d s)) + mset (owed (run_deferred d s))
           = mset (called s) + mset (users (d_callback d))"
    by blast+
qed

lemma step_tick_ok:
  assumes "pending_ok s"
  shows "pending_ok (step s Tick)"
    and "mset (called (step s Tick)) + mset (owed (step s Tick))
           = mset (called s) + mset (owed s)"
proof -
  have "pending_ok (step s Tick)
    \<and> mset (called (step s Tick)) + mset (owed (step s Tick)) = mset (called s) + mset (owed s)"
  proof (cases "timers s")
    case Nil
    with assms show ?thesis by simp
  next
    case (Cons d ds)
    with assms have ds: "ds = []" and l: "listeners s = []" and m: "moving s"
      by (auto simp: pending_ok_iff)
    let ?s0 = "s\<lparr>timers := []\<rparr>"
    have e: "timers ?s0 = []" "listeners ?s0 = []" "moving ?s0" using l m by simp_all
    note r = run_deferred_ok [OF e, of d]
    have o: "owed s = users (d_callback d)" using Cons ds l by (simp add: owed_def)
    from r o Cons ds show ?thesis by simp
  qed
  then show "pending_ok (step s Tick)"
    and "mset (called (step s Tick)) + mset (owed (step s Tick))
           = mset (called s) + mset (owed s)"
    by blast+
qed

lemma step_signal_ok:
  assumes "pending_ok s"
  shows "pending_ok (step s TransitionEnd)"
    and "mset (called (step s TransitionEnd)) + mset (owed (step s TransitionEnd))
           = mset (called s) + mset (owed s)"
    and "timers s = [] \<Longrightarrow> at_rest (step s TransitionEnd)"
proof -
  have "pending_ok (step s TransitionEnd)
    \<and> mset (called (step s TransitionEnd)) + mset (owed (step s TransitionEnd))
           = mset (called s) + mset (owed s)
    \<and> (timers s = [] \<longrightarrow> at_rest (step s TransitionEnd))"
  proof (cases "listeners s")
    case Nil
    with assms show ?thesis by (auto simp: pending_ok_iff at_rest_def)
  next
    case (Cons h hs)
    with assms obtain t cb where h: "h = OnTransitionEnd t cb" and hs: "hs = []"
      and tm: "timers s = []"
      by (auto simp: pending_ok_iff)
    let ?r = "invoke h s"
    have r: "step s TransitionEnd = ?r" using Cons hs by simp
    have f: "timers ?r = []" "listeners ?r = []" "\<not> moving ?r"
      "called ?r = called s @ users cb"
      using Cons h hs tm by simp_all
    have p: "pending_ok ?r" using f(1-3) by (rule pending_ok_idle)
    have o: "owed ?r = []" using f(1,2) by (rule owed_idle)
    have o0: "owed s = users cb" using Cons h hs tm by (simp add: owed_def)
    from p o o0 f show ?thesis unfolding r by (simp add: at_rest_def)
  qed
  then show "pending_ok (step s TransitionEnd)"
    and "mset (called (step s TransitionEnd)) + mset (owed (step s TransitionEnd))
           = mset (called s) + mset (owed s)"
    and "timers s = [] \<Longrightarrow> at_rest (step s TransitionEnd)"
    by blast+
qed

lemma step_ok:
  assumes "pending_ok s"
  shows "pending_ok (step s i)"
    and "mset (called (step s i)) + mset (owed (step s i))
           = mset (called s) + mset (owed s) + mset (given i)"
proof -
  show "pending_ok (step s i)"
  proof (cases i)
    case (Move d opts cb)
    then show ?thesis using step_move_ok(1) [OF assms] by simp
  next
    case Tick
    then show ?thesis using step_tick_ok(1) [OF assms] by simp
  next
    case TransitionEnd
    then show ?thesis using step_signal_ok(1) [OF assms] by simp
  qed
  show "mset (called (step s i)) + mset (owed (step s i))
           = mset (called s) + mset (owed s) + mset (given i)"
  proof (cases i)
    case (Move d opts cb)
    then show ?thesis using step_move_ok(2) [OF assms, of d opts cb] by simp
  next
    case Tick
    then show ?thesis using step_tick_ok(2) [OF assms] by simp
  next
    case TransitionEnd
    then show ?thesis using step_signal_ok(2) [OF assms] by simp
  qed
qed

lemma issued_Cons [simp]: "issued (i # ins) = given i @ issued ins"
  by (simp add: issued_def)

lemma issued_Nil [simp]: "issued [] = []"
  by (simp add: issued_def)

lemma issued_append [simp]: "issued (xs @ ys) = issued xs @ issued ys"
  by (simp add: issued_def)

lemma run_ok:
  "pending_ok s \<Longrightarrow>
   pending_ok (run s ins)
   \<and> mset (called (run s ins)) + mset (owed (run s ins))
       = mset (called s) + mset (owed s) + mset (issued ins)"
proof (induction ins arbitrary: s)
  case Nil
  then show ?case by simp
next
  case (Cons i ins)
  note s = step_ok [OF Cons.prems, of i]
  from Cons.IH [OF s(1)] s(2) show ?case by simp
qed

subsection \<open>The pending work ends\<close>

lemma remaining_idle [simp]: "timers s = [] \<Longrightarrow> remaining s = 0"
  by (simp add: remaining_def)

lemma reissue_progress:
  assumes t: "timers s = []" and l: "listeners s = []"
    and c: "0 < current_slide s" "current_slide s < slides s - 1"
    and e: "e = 1 \<or> e = - 1"
  shows "timers (move e opts cb (s\<lparr>moving := False\<rparr>)) = []
    \<or> remaining (move e opts cb (s\<lparr>moving := False\<rparr>))
        < (if 0 < e then nat (slides s - current_slide s) else nat (current_slide s))"
proof (cases "move_target s (move_index s e opts)")
  case None
  with t show ?thesis by (simp add: move_def Let_def)
next
  case (Some x)
  from c e have i: "move_index s e opts = current_slide s + e"
    by (auto simp: move_index_def Let_def)
  have ts: "timers (move e opts cb (s\<lparr>moving := False\<rparr>)) =
      [\<lparr>d_target = sticky_clamp s x, d_thisSlide = current_slide s + e,
        d_direction = e, d_opts = opts, d_callback = cb\<rparr>]"
    using Some t i by (simp add: move_def Let_def)
  have "remaining (move e opts cb (s\<lparr>moving := False\<rparr>))
        < (if 0 < e then nat (slides s - current_slide s) else nat (current_slide s))"
    using c e by (auto simp: remaining_def ts)
  then show ?thesis by simp
qed

lemma tick_progress:
  assumes p: "pending_ok s" and ne: "timers s \<noteq> []"
  shows "timers (step s Tick) = [] \<or> remaining (step s Tick) < remaining s"
proof -
  from p ne obtain d where d: "timers s = [d]" and l: "listeners s = []"
    and cur: "current_slide s = d_thisSlide d"
    by (auto simp: pending_ok_iff)
  let ?s0 = "s\<lparr>timers := []\<rparr>"
  let ?h = "OnTransitionEnd (d_thisSlide d) (d_callback d)"
  let ?recur = "slide_ends_alignment (options s) = Sticky
                 \<and> contains_single (slide_mode (options s))
                 \<and> d_direction d \<noteq> 0 \<and> d_thisSlide d > 0 \<and> d_thisSlide d < slides s - 1"
  have st: "step s Tick = run_deferred d ?s0" using d by simp
  show ?thesis
  proof (cases "getCurrentOffset True ?s0 = - d_target d \<and> ?recur")
    case False
    then have "timers (run_deferred d ?s0) = []"
      by (auto simp: run_deferred_def Let_def)
    with st show ?thesis by simp
  next
    case True
    have c: "0 < current_slide ?s0" "current_slide ?s0 < slides ?s0 - 1"
      using True cur by simp_all
    have t0: "timers ?s0 = []" "listeners ?s0 = []" using l by simp_all
    show ?thesis
    proof (cases "0 < d_direction d")
      case forwards: True
      from True forwards
      have r: "run_deferred d ?s0 = move 1 (d_opts d) ?h (?s0\<lparr>moving := False\<rparr>)"
        by (simp add: run_deferred_def Let_def)
      have m: "remaining s = nat (slides s - current_slide s)"
        using d cur forwards by (simp add: remaining_def)
      from reissue_progress [OF t0 c, of 1 "d_opts d" ?h] show ?thesis
        unfolding st r m by simp
    next
      case backwards: False
      from True backwards
      have r: "run_deferred d ?s0 = move (- 1) (d_opts d) ?h (?s0\<lparr>moving := False\<rparr>)"
        by (simp add: run_deferred_def Let_def)
      have m: "remaining s = nat (current_slide s)"
        using d cur backwards by (simp add: remaining_def)
      from reissue_progress [OF t0 c, of "- 1" "d_opts d" ?h] show ?thesis
        unfolding st r m by simp
    qed
  qed
qed

lemma settles:
  "pending_ok s \<Longrightarrow> \<exists>n. at_rest (run s (replicate n Tick @ [TransitionEnd]))"
proof (induction "remaining s" arbitrary: s rule: less_induct)
  case less
  show ?case
  proof (cases "timers s = []")
    case True
    with less.prems have "at_rest (step s TransitionEnd)"
      by (intro step_signal_ok(3))
    then have "at_rest (run s (replicate 0 Tick @ [TransitionEnd]))"
      by (simp del: step.simps)
    then show ?thesis by blast
  next
    case False
    have p': "pending_ok (step s Tick)" using less.prems by (rule step_tick_ok(1))
    from tick_progress [OF less.prems False] show ?thesis
    proof
      assume "timers (step s Tick) = []"
      with p' have "at_rest (step (step s Tick) TransitionEnd)"
        by (intro step_signal_ok(3))
      then have "at_rest (run s (replicate 1 Tick @ [TransitionEnd]))"
        by (simp del: step.simps)
      then show ?thesis by blast
    next
      assume "remaining (step s Tick) < remaining s"
      from less.hyps [OF this p'] obtain n
        where "at_rest (run (step s Tick) (replicate n Tick @ [TransitionEnd]))" by blast
      then have "at_rest (run s (replicate (Suc n) Tick @ [TransitionEnd]))"
        by (simp del: step.simps)
      then show ?thesis by blast
    qed
  qed
qed

lemma attached_pending_ok: "pending_ok (attached opts cs stage totalSize)"
  by (intro pending_ok_idle) (simp_all add: attached_def new_carousel_def)

lemma attached_nothing_called:
  "called (attached opts cs stage totalSize) = []" "owed (attached opts cs stage totalSize) = []"
  by (simp_all add: attached_def new_carousel_def owed_def)

lemma at_rest_owed: "at_rest s \<Longrightarrow> owed s = []"
  by (simp add: at_rest_def owed_def)

lemma single_example:
  "called (run (attached single_options four_children 300 400)
     [Move 1 no_opts (Some 7), Move 1 no_opts (Some 8), Tick, Tick, TransitionEnd]) = [8, 7]"
  "at_rest (run (attached single_options four_children 300 400)
     [Move 1 no_opts (Some 7), Move 1 no_opts (Some 8), Tick, Tick, TransitionEnd])"
  "map d_callback (timers (run (attached single_options four_children 300 400)
     [Move 1 no_opts (Some 7), Move 1 no_opts (Some 8), Tick])) = [OnTransitionEnd 1 (User 7)]"
  by code_simp+

text \<open>
  No callback is called twice and none is dropped while it is pending: in every state that
  calls of \<^verbatim>\<open>move\<close>, timer runs and transition-finished signals lead to from the attached
  carousel, the callbacks called so far together with the callbacks held by the pending
  delayed function or handler are, with multiplicity, the callbacks passed in. The delayed
  functions always run out, and once the transition-finished signal has come the carousel is
  at rest with every callback called. Whether that signal comes is up to the host.
\<close>

lemma callbacks_accounted:
  "mset (called (run (attached opts cs stage totalSize) ins))
     + mset (owed (run (attached opts cs stage totalSize) ins)) = mset (issued ins)
   \<and> (\<exists>n. at_rest (run (attached opts cs stage totalSize)
              (ins @ replicate n Tick @ [TransitionEnd]))
         \<and> owed (run (attached opts cs stage totalSize)
              (ins @ replicate n Tick @ [TransitionEnd])) = []
         \<and> mset (called (run (attached opts cs stage totalSize)
              (ins @ replicate n Tick @ [TransitionEnd]))) = mset (issued ins))"
proof -
  let ?a = "attached opts cs stage totalSize"
  note r = run_ok [OF attached_pending_ok, of opts cs stage totalSize]
  have a: "mset (called (run ?a ins)) + mset (owed (run ?a ins)) = mset (issued ins)"
    using r [of ins] by (simp add: attached_nothing_called)
  from r [of ins] have "pending_ok (run ?a ins)" by simp
  then obtain n where n: "at_rest (run (run ?a ins) (replicate n Tick @ [TransitionEnd]))"
    using settles by blast
  let ?ins = "ins @ replicate n Tick @ [TransitionEnd]"
  have i: "issued (replicate n Tick @ [TransitionEnd]) = []"
    by (induction n) simp_all
  from n have rest: "at_rest (run ?a ?ins)" by simp
  then have o: "owed (run ?a ?ins) = []" by (rule at_rest_owed)
  have "mset (called (run ?a ?ins)) + mset (owed (run ?a ?ins)) = mset (issued ?ins)"
    using r [of ?ins] by (simp add: attached_nothing_called)
  with o i have c: "mset (called (run ?a ?ins)) = mset (issued ins)" by simp
  from a rest o c show ?thesis by blast
qed

lemma callbacks_accounted_example:
  "issued [Move 1 no_opts (Some 7), Move 1 no_opts (Some 8), Tick, Tick, TransitionEnd] = [7, 8]
   \<and> called (run (attached single_options four_children 300 400)
        [Move 1 no_opts (Some 7), Move 1 no_opts (Some 8), Tick, Tick, TransitionEnd]) = [8, 7]
   \<and> mset (owed (run (attached single_options four_children 300 400)
        [Move 1 no_opts (Some 7), Move 1 no_opts (Some 8), Tick, Tick, TransitionEnd])) = {#}"
proof -
  let ?ins = "[Move 1 no_opts (Some 7), Move 1 no_opts (Some 8), Tick, Tick, TransitionEnd]"
  have i: "issued ?ins = [7, 8]" by simp
  from callbacks_accounted [of single_options four_children 300 400 ?ins]
  have "mset (called (run (attached single_options four_children 300 400) ?ins))
     + mset (owed (run (attached single_options four_children 300 400) ?ins)) = mset (issued ?ins)"
    by blast
  then show ?thesis
    unfolding single_example(1) i by (simp del: run_Cons run_Nil run_append)
qed

subsection \<open>A handler that waits for a signal that cannot come\<close>






end
